theory Spec2Isabelle
  imports Main "HOL-Library.Word"
begin

section \<open>JavaScript string primitives\<close>

text \<open>
  The source is TypeScript; its strings are sequences of UTF-16 code units. The model
  uses \<^typ>\<open>string\<close>, whose characters are the code units 0 to 255 (ASCII and
  Latin-1). On that range \<open>toLowerCase\<close> maps one code unit to one code unit, so
  indices computed on a lowercased copy are valid in the original.
\<close>

definition isWhiteSpace :: "char \<Rightarrow> bool" where
  \<comment> \<open>ECMAScript WhiteSpace and LineTerminator below 256: what \<open>trim\<close> removes and
      what \<open>\s\<close> matches (TAB, LF, VT, FF, CR, SP, NBSP).\<close>
  "isWhiteSpace c = ((of_char c :: nat) \<in> {9, 10, 11, 12, 13, 32, 160})"

definition toLowerChar :: "char \<Rightarrow> char" where
  \<comment> \<open>A-Z and the Latin-1 capitals (0xC0-0xDE without the multiplication sign 0xD7)
      move up by 32; every other code unit is unchanged.\<close>
  "toLowerChar c =
     (let n = (of_char c :: nat)
      in if (65 \<le> n \<and> n \<le> 90) \<or> (192 \<le> n \<and> n \<le> 222 \<and> n \<noteq> 215)
         then char_of (n + 32) else c)"

definition toLowerCase :: "string \<Rightarrow> string" where
  "toLowerCase s = map toLowerChar s"

definition trimStart :: "string \<Rightarrow> string" where
  "trimStart s = dropWhile isWhiteSpace s"

definition trimEnd :: "string \<Rightarrow> string" where
  "trimEnd s = rev (dropWhile isWhiteSpace (rev s))"

definition trim :: "string \<Rightarrow> string" where
  "trim s = trimEnd (trimStart s)"

fun startsWith :: "string \<Rightarrow> string \<Rightarrow> bool" where
  \<comment> \<open>\<open>startsWith s kw\<close>: \<open>kw\<close> is a prefix of \<open>s\<close>.\<close>
  "startsWith s [] = True"
| "startsWith [] (k # ks) = False"
| "startsWith (c # cs) (k # ks) = (c = k \<and> startsWith cs ks)"

fun includesStr :: "string \<Rightarrow> string \<Rightarrow> bool" where
  \<comment> \<open>\<open>String.prototype.includes\<close>: \<open>kw\<close> occurs somewhere in \<open>s\<close>.\<close>
  "includesStr [] kw = (kw = [])"
| "includesStr (c # cs) kw = (startsWith (c # cs) kw \<or> includesStr cs kw)"

section \<open>Regular expressions of the source\<close>

text \<open>
  The three regular expressions of \<open>wake-word.ts\<close> are sequences of literal characters,
  greedy repetitions of a character class and one alternation of literal strings. The
  matcher follows the backtracking order of ECMAScript: a greedy repetition first tries to
  consume one more character and falls back to the rest of the pattern, an alternation
  tries its branches from left to right. All three are built with the flag \<open>i\<close>.
\<close>

datatype cls = WS | PUNCT_WS | PUNCT

fun inClass :: "cls \<Rightarrow> char \<Rightarrow> bool" where
  "inClass WS c = isWhiteSpace c"
| "inClass PUNCT_WS c = (c = CHR '','' \<or> c = CHR ''.'' \<or> isWhiteSpace c)"
| "inClass PUNCT c = (c \<in> {CHR '','', CHR ''.'', CHR ''!'', CHR ''?'', CHR '';'', CHR '':''})"

datatype item = Lit char | Star cls | Plus cls | Alt "string list"

definition ciEq :: "char \<Rightarrow> char \<Rightarrow> bool" where
  \<comment> \<open>Two code units are equal under the flag \<open>i\<close>.\<close>
  "ciEq a b = (toLowerChar a = toLowerChar b)"

fun weight :: "item \<Rightarrow> nat" where
  "weight (Lit c) = 1"
| "weight (Star k) = 1"
| "weight (Plus k) = 2"
| "weight (Alt as) = 1 + sum_list (map (\<lambda>a. Suc (length a)) as)"

function matchItems :: "item list \<Rightarrow> string \<Rightarrow> string option" where
  \<comment> \<open>Matches the pattern at the start of the input; the result is the input left after
      the match, \<open>None\<close> when the pattern does not match here.\<close>
  "matchItems [] s = Some s"
| "matchItems (Lit c # ps) [] = None"
| "matchItems (Lit c # ps) (x # xs) = (if ciEq x c then matchItems ps xs else None)"
| "matchItems (Star k # ps) [] = matchItems ps []"
| "matchItems (Star k # ps) (x # xs) =
     (if inClass k x
      then (case matchItems (Star k # ps) xs of
              Some r \<Rightarrow> Some r
            | None \<Rightarrow> matchItems ps (x # xs))
      else matchItems ps (x # xs))"
| "matchItems (Plus k # ps) [] = None"
| "matchItems (Plus k # ps) (x # xs) =
     (if inClass k x then matchItems (Star k # ps) xs else None)"
| "matchItems (Alt [] # ps) s = None"
| "matchItems (Alt (a # as) # ps) s =
     (case matchItems (map Lit a @ ps) s of
        Some r \<Rightarrow> Some r
      | None \<Rightarrow> matchItems (Alt as # ps) s)"
  by pat_completeness auto
termination
  by (relation "measures [\<lambda>(ps, s). sum_list (map weight ps), \<lambda>(ps, s). length s]")
     (auto simp: comp_def sum_list_triv)

fun regexExec :: "item list \<Rightarrow> nat \<Rightarrow> string \<Rightarrow> (nat \<times> nat) option" where
  \<comment> \<open>\<open>str.match(re)\<close> without the flag \<open>g\<close>: the leftmost position where the pattern
      matches, as \<open>(match.index, match[0].length)\<close>. The second argument counts the
      positions already tried.\<close>
  "regexExec ps i [] =
     (case matchItems ps [] of Some r \<Rightarrow> Some (i, 0) | None \<Rightarrow> None)"
| "regexExec ps i (x # xs) =
     (case matchItems ps (x # xs) of
        Some r \<Rightarrow> Some (i, length (x # xs) - length r)
      | None \<Rightarrow> regexExec ps (Suc i) xs)"

definition replaceAnchored :: "item list \<Rightarrow> string \<Rightarrow> string" where
  \<comment> \<open>\<open>str.replace(/^.../, '')\<close>: the pattern can only match at index 0.\<close>
  "replaceAnchored ps s = (case matchItems ps s of Some r \<Rightarrow> r | None \<Rightarrow> s)"

section \<open>Wake word detection (wake-word.ts)\<close>

definition WAKE_WORDS :: "string list" where
  "WAKE_WORDS = [''hey mentra'']"

fun buildPattern :: "string \<Rightarrow> item list" where
  \<comment> \<open>The loop that builds one entry of \<open>WAKE_PATTERNS\<close>: a space becomes \<open>\s+\<close>, any
      other character is copied and followed by \<open>\s*\<close> when the next character exists
      and is not a space.\<close>
  "buildPattern [] = []"
| "buildPattern (ch # rest) =
     (if ch = CHR '' '' then Plus WS # buildPattern rest
      else Lit ch #
           (case rest of
              [] \<Rightarrow> []
            | next # _ \<Rightarrow> if next \<noteq> CHR '' '' then [Star WS] else [])
           @ buildPattern rest)"

definition WAKE_PATTERNS :: "item list list" where
  "WAKE_PATTERNS = map buildPattern WAKE_WORDS"

record WakeWordResult =
  detected :: bool
  query :: string
  wakeWordUsed :: "string option"

definition stripLeadingPunct :: "string \<Rightarrow> string" where
  \<comment> \<open>\<open>query.replace(/^[,.\s]+/, '')\<close>\<close>
  "stripLeadingPunct s = replaceAnchored [Plus PUNCT_WS] s"

definition tailQuery :: "string \<Rightarrow> string" where
  \<comment> \<open>What \<open>detectWakeWord\<close> does to the sliced tail: trim, strip leading punctuation,
      trim again.\<close>
  "tailQuery s = trim (stripLeadingPunct (trim s))"

fun detectLoop :: "(string \<times> item list) list \<Rightarrow> string \<Rightarrow> string \<Rightarrow> WakeWordResult" where
  "detectLoop [] lowerText text =
     \<lparr>detected = False, query = trim text, wakeWordUsed = None\<rparr>"
| "detectLoop ((ww, pat) # others) lowerText text =
     (case regexExec pat 0 lowerText of
        Some (index, len) \<Rightarrow>
          \<lparr>detected = True, query = tailQuery (drop (index + len) text), wakeWordUsed = Some ww\<rparr>
      | None \<Rightarrow> detectLoop others lowerText text)"

definition detectWakeWord :: "string \<Rightarrow> WakeWordResult" where
  "detectWakeWord text =
     (let lowerText = trim (toLowerCase text)
      in detectLoop (zip WAKE_WORDS WAKE_PATTERNS) lowerText text)"

definition removeWakeWord :: "string \<Rightarrow> string" where
  "removeWakeWord text = query (detectWakeWord text)"

fun splitOn :: "char \<Rightarrow> string \<Rightarrow> string \<Rightarrow> string list" where
  \<comment> \<open>\<open>s.split(sep)\<close> for a one-character separator; the second argument is the piece
      read so far.\<close>
  "splitOn sep acc [] = [acc]"
| "splitOn sep acc (c # cs) =
     (if c = sep then acc # splitOn sep [] cs else splitOn sep (acc @ [c]) cs)"

definition lastWord :: "string \<Rightarrow> string" where
  \<comment> \<open>\<open>ww.split(' ').pop() || ''\<close>\<close>
  "lastWord ww = last (splitOn (CHR '' '') [] ww)"

definition suffixesOf :: "string \<Rightarrow> string list" where
  \<comment> \<open>\<open>lastWord.slice(-len)\<close> for \<open>len\<close> from 1 to \<open>lastWord.length - 1\<close>.\<close>
  "suffixesOf w = map (\<lambda>len. drop (length w - len) w) [1 ..< length w]"

definition FRAGMENTS :: "string list" where
  "FRAGMENTS = concat (map (\<lambda>ww. suffixesOf (lastWord ww)) WAKE_WORDS)"

definition WAKE_WORD_TRAILING_FRAGMENTS :: "item list" where
  \<comment> \<open>\<open>^(?:a|ra|tra|ntra|entra)[,.!?;:]+\s*\<close> with the flag \<open>i\<close>. The fragments are
      letters only, so escaping the regex metacharacters leaves them as they are.\<close>
  "WAKE_WORD_TRAILING_FRAGMENTS = [Alt FRAGMENTS, Plus PUNCT, Star WS]"

definition stripWakeWordResidue :: "string \<Rightarrow> string" where
  "stripWakeWordResidue text = trim (replaceAnchored WAKE_WORD_TRAILING_FRAGMENTS text)"

subsection \<open>The inputs the specification speaks of\<close>

text \<open>
  The wake phrase variants of the specification, read off its words: the letters of the
  phrase in any case, any run of whitespace (also none) between two letters of a word, and
  at least one whitespace character where the phrase has a space.
\<close>

fun wakeVariant :: "string \<Rightarrow> string \<Rightarrow> bool" where
  "wakeVariant [] w = (w = [])"
| "wakeVariant (p # ps) [] = False"
| "wakeVariant (p # ps) (c # cs) =
     (if p = CHR '' ''
      then isWhiteSpace c \<and> wakeVariant ps (dropWhile isWhiteSpace cs)
      else ciEq c p \<and>
           (case ps of
              [] \<Rightarrow> cs = []
            | next # _ \<Rightarrow>
                if next \<noteq> CHR '' '' then wakeVariant ps (dropWhile isWhiteSpace cs)
                else wakeVariant ps cs))"

definition goodPhrase :: "string \<Rightarrow> bool" where
  \<comment> \<open>A phrase that does not end in a space.\<close>
  "goodPhrase p = (p = [] \<or> last p \<noteq> CHR '' '')"

fun startsWithCI :: "string \<Rightarrow> string \<Rightarrow> bool" where
  \<comment> \<open>\<open>startsWith\<close> up to letter case.\<close>
  "startsWithCI s [] = True"
| "startsWithCI [] (k # ks) = False"
| "startsWithCI (c # cs) (k # ks) = (ciEq c k \<and> startsWithCI cs ks)"

definition beginsWithResidue :: "string \<Rightarrow> bool" where
  \<comment> \<open>The text begins with a suffix of "mentra" of 1 to 5 characters (in any letter
      case) that is followed by a character of \<open>[,.!?;:]\<close>.\<close>
  "beginsWithResidue t =
     (\<exists>f \<in> set [''a'', ''ra'', ''tra'', ''ntra'', ''entra''].
        startsWithCI t f \<and>
        (case drop (length f) t of [] \<Rightarrow> False | c # _ \<Rightarrow> inClass PUNCT c))"

section \<open>Location query classifier (location-query.ts)\<close>

definition LOCATION_KEYWORDS :: "string list" where
  "LOCATION_KEYWORDS =
    [''where am i'', ''my location'', ''location'', ''my address'', ''current location'',
     ''my current address'',
     ''what city'', ''which city'', ''what town'', ''what state'', ''what country'',
     ''what neighborhood'', ''what area'', ''what street'', ''which street'',
     ''nearby'', ''near me'', ''around here'', ''close to me'', ''closest'', ''nearest'',
     ''in this area'',
     ''directions to'', ''how to get to'', ''navigate to'', ''route to'', ''how far'',
     ''distance to'', ''walking distance'', ''driving distance'',
     ''restaurants nearby'', ''coffee near'', ''food near'', ''stores near'', ''shops near'',
     ''places near'', ''things to do near'', ''what's around'']"

definition WEATHER_KEYWORDS :: "string list" where
  "WEATHER_KEYWORDS =
    [''weather'', ''temperature'', ''forecast'', ''rain'', ''sunny'', ''cloudy'', ''snow'',
     ''humidity'', ''wind speed'']"

definition someIncluded :: "string list \<Rightarrow> string \<Rightarrow> bool" where
  \<comment> \<open>\<open>KEYWORDS.some(kw => q.includes(kw))\<close>\<close>
  "someIncluded kws q = list_ex (\<lambda>kw. includesStr q kw) kws"

definition isLocationQuery :: "string \<Rightarrow> bool" where
  "isLocationQuery qry =
     (let q = toLowerCase qry
      in if someIncluded LOCATION_KEYWORDS q then True
         else if someIncluded WEATHER_KEYWORDS q then True
         else False)"

definition needsGeocoding :: "string \<Rightarrow> bool" where
  "needsGeocoding qry =
     (let q = toLowerCase qry
      in if someIncluded WEATHER_KEYWORDS q
            \<and> (\<not> includesStr q '' in '' \<and> \<not> includesStr q '' at '')
         then False
         else someIncluded LOCATION_KEYWORDS q)"

definition isWeatherQuery :: "string \<Rightarrow> bool" where
  "isWeatherQuery qry = someIncluded WEATHER_KEYWORDS (toLowerCase qry)"

section \<open>JSON values and events\<close>

text \<open>
  Events are built as object literals and serialised with \<open>JSON.stringify\<close>. The model
  keeps the JSON value: the keys of an object in the order of the literal, a property
  whose value is \<open>undefined\<close> left out, as the serialiser does. A frame written to a
  server-sent-event stream is the JSON value between \<open>data:\<close> and the blank line.
\<close>

datatype json =
    JNull
  | JBool bool
  | JNum int
  | JStr string
  | JArr "json list"
  | JObj "(string \<times> json) list"

fun field :: "json \<Rightarrow> string \<Rightarrow> json option" where
  "field (JObj kvs) k = map_of kvs k"
| "field _ k = None"

fun keysOf :: "json \<Rightarrow> string list" where
  "keysOf (JObj kvs) = map fst kvs"
| "keysOf _ = []"

fun showNat :: "nat \<Rightarrow> string" where
  \<comment> \<open>A number in a template literal: its decimal digits.\<close>
  "showNat n =
     (if n < 10 then [char_of (48 + n)]
      else showNat (n div 10) @ [char_of (48 + n mod 10)])"

declare showNat.simps [simp del]

section \<open>Photo manager (PhotoManager.ts)\<close>

type_synonym byte = "8 word"

record StoredPhoto =
  requestId :: string
  buffer :: "byte list"
  timestamp :: int
  userId :: string
  mimeType :: string
  filename :: string
  size :: nat

record PhotoClient =
  \<comment> \<open>An \<open>SSEWriter\<close> of the photo stream; \<open>writeThrows\<close> says that its \<open>write\<close>
      throws (the connection is gone).\<close>
  clientId :: nat
  writeThrows :: bool

record PhotoManager =
  photos :: "string \<rightharpoonup> StoredPhoto"
  sseClients :: "PhotoClient list"
  currentPhoto :: "StoredPhoto option"
  previousPhotos :: "StoredPhoto list"
  photoWire :: "(nat \<times> json) list"
    \<comment> \<open>what the clients have been sent, oldest first: (client, payload)\<close>

definition base64Alphabet :: string where
  "base64Alphabet =
     ''ABCDEFGHIJKLMNOPQRSTUVWXYZabcdefghijklmnopqrstuvwxyz0123456789+/''"

definition b64 :: "nat \<Rightarrow> char" where
  "b64 n = base64Alphabet ! (n mod 64)"

fun toBase64 :: "byte list \<Rightarrow> string" where
  \<comment> \<open>\<open>buffer.toString("base64")\<close>: three bytes give four characters, the last group
      is padded with \<open>=\<close>.\<close>
  "toBase64 [] = []"
| "toBase64 [a] =
     [b64 (unat a div 4), b64 (unat a mod 4 * 16), CHR ''='', CHR ''='']"
| "toBase64 [a, b] =
     [b64 (unat a div 4), b64 (unat a mod 4 * 16 + unat b div 16),
      b64 (unat b mod 16 * 4), CHR ''='']"
| "toBase64 (a # b # c # rest) =
     [b64 (unat a div 4), b64 (unat a mod 4 * 16 + unat b div 16),
      b64 (unat b mod 16 * 4 + unat c div 64), b64 (unat c mod 64)] @ toBase64 rest"

definition photoPayload :: "StoredPhoto \<Rightarrow> json" where
  \<comment> \<open>The object that \<open>broadcastPhoto\<close> serialises.\<close>
  "photoPayload photo =
     (let base64Data = toBase64 (buffer photo)
      in JObj [(''requestId'', JStr (requestId photo)),
               (''timestamp'', JNum (timestamp photo)),
               (''mimeType'', JStr (mimeType photo)),
               (''filename'', JStr (filename photo)),
               (''size'', JNum (int (size photo))),
               (''userId'', JStr (userId photo)),
               (''base64'', JStr base64Data),
               (''dataUrl'', JStr (''data:'' @ mimeType photo @ '';base64,'' @ base64Data))])"

definition broadcastPhoto :: "StoredPhoto \<Rightarrow> PhotoManager \<Rightarrow> PhotoManager" where
  \<comment> \<open>Every client is written the payload; a client whose \<open>write\<close> throws is deleted
      from the set.\<close>
  "broadcastPhoto photo pm =
     (let payload = photoPayload photo;
          alive = filter (\<lambda>c. \<not> writeThrows c) (sseClients pm)
      in pm\<lparr>photoWire := photoWire pm @ map (\<lambda>c. (clientId c, payload)) alive,
            sseClients := alive\<rparr>)"

definition sliceLast :: "nat \<Rightarrow> 'a list \<Rightarrow> 'a list" where
  \<comment> \<open>\<open>xs.slice(-n)\<close>; \<open>slice(-0)\<close> is \<open>slice(0)\<close>, the whole array.\<close>
  "sliceLast n xs = (if n = 0 then xs else drop (length xs - n) xs)"

definition rotatePhotos :: "nat \<Rightarrow> StoredPhoto \<Rightarrow> PhotoManager \<Rightarrow> PhotoManager" where
  \<comment> \<open>The first argument is \<open>PHOTO_SETTINGS.previousPhotosToKeep\<close>, a constant of
      \<open>constants/config\<close>.\<close>
  "rotatePhotos previousPhotosToKeep newPhoto pm =
     (let pm1 = (case currentPhoto pm of
                   None \<Rightarrow> pm
                 | Some cur \<Rightarrow>
                     (let prev = previousPhotos pm @ [cur]
                      in pm\<lparr>previousPhotos :=
                              (if length prev > previousPhotosToKeep
                               then sliceLast previousPhotosToKeep prev else prev)\<rparr>))
      in pm1\<lparr>currentPhoto := Some newPhoto\<rparr>)"

record CameraPhoto =
  \<comment> \<open>What \<open>session.camera.requestPhoto()\<close> resolves to.\<close>
  camRequestId :: string
  camBuffer :: "byte list"
  camTimestamp :: int
  camMimeType :: string
  camFilename :: string
  camSize :: nat

definition storedOf :: "string \<Rightarrow> CameraPhoto \<Rightarrow> StoredPhoto" where
  \<comment> \<open>The \<open>StoredPhoto\<close> that \<open>takePhoto\<close> builds from the camera's answer.\<close>
  "storedOf uid p =
     \<lparr>requestId = camRequestId p, buffer = camBuffer p, timestamp = camTimestamp p,
      userId = uid, mimeType = camMimeType p, filename = camFilename p, size = camSize p\<rparr>"

definition takePhoto ::
  "nat \<Rightarrow> bool \<Rightarrow> string \<Rightarrow> CameraPhoto option \<Rightarrow> PhotoManager
     \<Rightarrow> StoredPhoto option \<times> PhotoManager" where
  \<comment> \<open>\<open>hasSession\<close>: \<open>this.user.appSession\<close> is set; \<open>uid\<close>: \<open>this.user.userId\<close>;
      \<open>camera\<close>: the outcome of \<open>requestPhoto\<close>, \<open>None\<close> when it rejects.\<close>
  "takePhoto previousPhotosToKeep hasSession uid camera pm =
     (if \<not> hasSession then (None, pm)
      else case camera of
             None \<Rightarrow> (None, pm)
           | Some photo \<Rightarrow>
               (let stored = storedOf uid photo;
                    pm1 = rotatePhotos previousPhotosToKeep stored pm;
                    pm2 = pm1\<lparr>photos := (photos pm1)(camRequestId photo \<mapsto> stored)\<rparr>;
                    pm3 = broadcastPhoto stored pm2
                in (Some stored, pm3)))"

definition getPhoto :: "PhotoManager \<Rightarrow> string \<Rightarrow> StoredPhoto option" where
  "getPhoto pm rid = photos pm rid"

definition getPhotosForContext :: "PhotoManager \<Rightarrow> byte list list" where
  "getPhotosForContext pm =
     (case currentPhoto pm of None \<Rightarrow> [] | Some cur \<Rightarrow> [buffer cur])
     @ map buffer (previousPhotos pm)"

fun takePhotos :: "nat \<Rightarrow> string \<Rightarrow> CameraPhoto list \<Rightarrow> PhotoManager \<Rightarrow> PhotoManager" where
  \<comment> \<open>A sequence of successful captures: \<open>takePhoto\<close> with a session attached and the
      camera resolving to each photo in turn.\<close>
  "takePhotos k uid [] pm = pm"
| "takePhotos k uid (p # ps) pm = takePhotos k uid ps (snd (takePhoto k True uid (Some p) pm))"


section \<open>The user aggregate\<close>

text \<open>
  Modelled from the spec: the classes \<open>User\<close>, \<open>ChatHistoryManager\<close> and
  \<open>LocationManager\<close> are not among the sources. The record below holds the parts of a
  user that the sources read: the hardware session handle with its capabilities, the chat
  history ring (section 4.6, capacity 30, youngest last) and the photo manager.
\<close>

record Capabilities =
  hasCamera :: "bool option"
  hasDisplay :: "bool option"
  hasSpeaker :: "bool option"

record AppSession =
  capabilities :: "Capabilities option"

record Turn =
  turnQuery :: string
  turnResponse :: string
  turnTimestamp :: string
  hadPhoto :: bool
  photoDataUrl :: "string option"

record User =
  userIdOf :: string
  appSession :: "AppSession option"
  chatHistory :: "Turn list"
  photo :: PhotoManager

definition getRecentTurns :: "nat \<Rightarrow> Turn list \<Rightarrow> Turn list" where
  \<comment> \<open>Modelled from the spec: \<open>recentTurns(limit)\<close> returns the youngest \<open>limit\<close> turns,
      youngest last.\<close>
  "getRecentTurns limit ts = drop (length ts - limit) ts"

definition addTurn :: "string \<Rightarrow> string \<Rightarrow> string \<Rightarrow> bool \<Rightarrow> User \<Rightarrow> User" where
  \<comment> \<open>Modelled from the spec: \<open>addTurn\<close> writes the turn to the ring of 30 turns; an error
      of the durable store is logged and the ring stays authoritative, so the call does
      not reject. The first argument is the time of the call.\<close>
  "addTurn now q r hp u =
     u\<lparr>chatHistory :=
         getRecentTurns 30
           (chatHistory u @
            [\<lparr>turnQuery = q, turnResponse = r, turnTimestamp = now, hadPhoto = hp,
              photoDataUrl = None\<rparr>])\<rparr>"

definition clearAppSession :: "User \<Rightarrow> User" where
  \<comment> \<open>Modelled from the spec: \<open>clearAppSession\<close> detaches the listeners and nulls the
      handle (section 4.10).\<close>
  "clearAppSession u = u\<lparr>appSession := None\<rparr>"

definition capFlag :: "(Capabilities \<Rightarrow> bool option) \<Rightarrow> bool \<Rightarrow> AppSession \<Rightarrow> bool" where
  \<comment> \<open>\<open>session.capabilities?.flag ?? dflt\<close>\<close>
  "capFlag flag dflt session =
     (case capabilities session of
        None \<Rightarrow> dflt
      | Some c \<Rightarrow> (case flag c of None \<Rightarrow> dflt | Some b \<Rightarrow> b))"

section \<open>Calls to the outside\<close>

text \<open>
  The order in which the server calls its collaborators is recorded as a list of calls,
  oldest first.
\<close>

record AgentContext =
  ctxHasDisplay :: bool
  ctxHasSpeakers :: bool
  ctxHasCamera :: bool
  ctxLocation :: "string option"
  ctxLocalTime :: string
  ctxTimezone :: "string option"
  ctxNotifications :: string
  ctxConversationHistory :: "Turn list"

record GenerateOptions =
  optQuery :: string
  optPhotos :: "byte list list option"
  optContext :: AgentContext

datatype call =
    BroadcastChatEvent string json
  | ClearPendingEvents string
  | ClearAppSession string
  | Cleanup string
  | DeleteUser string
  | SetTimeout nat nat
  | ClearTimeout nat
  | PlayAudio string
  | RequestPhoto
  | GetLatestLocation
  | UpdateCoordinates int int
  | FetchContextIfNeeded string
  | GenerateResponse GenerateOptions
  | ShowTextWall string nat
  | Speak string
  | AddTurn string string bool

section \<open>Chat stream and event queue (chat.ts)\<close>

record SSEWriter =
  writerId :: string
  writeRejects :: bool
    \<comment> \<open>the promise of \<open>write\<close> rejects: the connection is gone\<close>

record server =
  chatClients :: "string \<rightharpoonup> SSEWriter list"
  pendingEvents :: "string \<rightharpoonup> json list"
  chatWire :: "(string \<times> json) list"
    \<comment> \<open>frames delivered by \<open>broadcastChatEvent\<close>, oldest first: (writer id, event)\<close>
  users :: "string \<rightharpoonup> User"
  pendingRemovals :: "string \<rightharpoonup> nat"
  timers :: "nat \<rightharpoonup> string \<times> nat"
    \<comment> \<open>the armed timeouts: handle to (user of the grace callback, delay)\<close>
  nextTimer :: nat
  calls :: "call list"

definition addChatClient :: "string \<Rightarrow> SSEWriter \<Rightarrow> server \<Rightarrow> server" where
  "addChatClient uid writer st =
     st\<lparr>chatClients :=
          (chatClients st)(uid \<mapsto>
            (case chatClients st uid of None \<Rightarrow> [] | Some ws \<Rightarrow> ws) @ [writer])\<rparr>"

fun removeFirstById :: "string \<Rightarrow> SSEWriter list \<Rightarrow> SSEWriter list" where
  "removeFirstById wid [] = []"
| "removeFirstById wid (w # ws) =
     (if writerId w = wid then ws else w # removeFirstById wid ws)"

definition removeChatClient :: "string \<Rightarrow> string \<Rightarrow> server \<Rightarrow> server" where
  "removeChatClient uid wid st =
     (case chatClients st uid of
        None \<Rightarrow> st
      | Some ws \<Rightarrow>
          (let ws' = removeFirstById wid ws
           in if length ws' = 0 then st\<lparr>chatClients := (chatClients st)(uid := None)\<rparr>
              else st\<lparr>chatClients := (chatClients st)(uid \<mapsto> ws')\<rparr>))"

definition clearPendingEvents :: "string \<Rightarrow> server \<Rightarrow> server" where
  "clearPendingEvents uid st =
     st\<lparr>pendingEvents := (pendingEvents st)(uid := None),
        calls := calls st @ [ClearPendingEvents uid]\<rparr>"

definition enqueue :: "string \<Rightarrow> json \<Rightarrow> server \<Rightarrow> server" where
  "enqueue uid ev st =
     st\<lparr>pendingEvents :=
          (pendingEvents st)(uid \<mapsto>
            (case pendingEvents st uid of None \<Rightarrow> [] | Some q \<Rightarrow> q) @ [ev])\<rparr>"

definition broadcastChatEvent :: "string \<Rightarrow> json \<Rightarrow> server \<Rightarrow> server" where
  \<comment> \<open>With no client the event is queued. Otherwise every client is written the event;
      a client whose \<open>write\<close> rejects is deleted from the set.\<close>
  "broadcastChatEvent uid ev st =
     (let st1 = st\<lparr>calls := calls st @ [BroadcastChatEvent uid ev]\<rparr>
      in case chatClients st1 uid of
           None \<Rightarrow> enqueue uid ev st1
         | Some clients \<Rightarrow>
             if length clients = 0 then enqueue uid ev st1
             else (let alive = filter (\<lambda>w. \<not> writeRejects w) clients
                   in st1\<lparr>chatWire := chatWire st1 @ map (\<lambda>w. (writerId w, ev)) alive,
                          chatClients := (chatClients st1)(uid \<mapsto> alive)\<rparr>))"

definition orDefault :: "string option \<Rightarrow> string \<Rightarrow> string" where
  \<comment> \<open>\<open>x || dflt\<close> on an optional string: the empty string is falsy too.\<close>
  "orDefault x dflt = (case x of None \<Rightarrow> dflt | Some v \<Rightarrow> if v = [] then dflt else v)"

definition turnMessages :: "string \<Rightarrow> string option \<Rightarrow> nat \<Rightarrow> nat \<Rightarrow> Turn \<Rightarrow> json list" where
  \<comment> \<open>The two history messages of the turn at position \<open>index\<close>.\<close>
  "turnMessages uid recipientId now index turn =
     [JObj ([(''id'', JStr (showNat now @ ''-'' @ showNat (index * 2))),
             (''senderId'', JStr uid),
             (''recipientId'', JStr (orDefault recipientId ''mentra-ai'')),
             (''content'', JStr (turnQuery turn)),
             (''timestamp'', JStr (turnTimestamp turn))]
            @ (case photoDataUrl turn of None \<Rightarrow> [] | Some d \<Rightarrow> [(''image'', JStr d)])),
      JObj [(''id'', JStr (showNat now @ ''-'' @ showNat (index * 2 + 1))),
            (''senderId'', JStr (orDefault recipientId ''mentra-ai'')),
            (''recipientId'', JStr uid),
            (''content'', JStr (turnResponse turn)),
            (''timestamp'', JStr (turnTimestamp turn))]]"

definition historyEvent :: "string \<Rightarrow> string option \<Rightarrow> nat \<Rightarrow> Turn list \<Rightarrow> json" where
  "historyEvent uid recipientId now recentTurns =
     JObj [(''type'', JStr ''history''),
           (''messages'',
            JArr (concat (map (\<lambda>(index, turn). turnMessages uid recipientId now index turn)
                              (zip [0 ..< length recentTurns] recentTurns))))]"

definition historyFrames :: "string \<Rightarrow> string option \<Rightarrow> nat \<Rightarrow> server \<Rightarrow> json list" where
  \<comment> \<open>The history step of \<open>chatStream\<close>: one frame when the user is registered and has
      a recent turn, none otherwise.\<close>
  "historyFrames uid recipientId now st =
     (case users st uid of
        None \<Rightarrow> []
      | Some user \<Rightarrow>
          (let recentTurns = getRecentTurns 30 (chatHistory user)
           in if length recentTurns > 0
              then [historyEvent uid recipientId now recentTurns] else []))"

definition heartbeatEvent :: "bool \<Rightarrow> string \<Rightarrow> json" where
  "heartbeatEvent active isoNow =
     JObj [(''type'', JStr ''session_heartbeat''), (''active'', JBool active),
           (''timestamp'', JStr isoNow)]"

definition isActive :: "string \<Rightarrow> server \<Rightarrow> bool" where
  "isActive uid st =
     (case users st uid of None \<Rightarrow> False | Some user \<Rightarrow> appSession user \<noteq> None)"

datatype httpError = BadRequest

definition chatStream ::
  "string option \<Rightarrow> string option \<Rightarrow> nat \<Rightarrow> string \<Rightarrow> server
     \<Rightarrow> httpError + (json list \<times> server)" where
  \<comment> \<open>What the handler does when the stream opens, up to the first heartbeat. \<open>now\<close> is
      \<open>Date.now()\<close>, \<open>isoNow\<close> the time of the heartbeat. The result lists the frames
      written to the new stream, oldest first. The periodic heartbeat and the abort
      handler run later and are not part of this function.\<close>
  "chatStream userIdParam recipientId now isoNow st =
     (case userIdParam of
        None \<Rightarrow> Inl BadRequest
      | Some uid \<Rightarrow>
          if uid = [] then Inl BadRequest
          else
            (let customWriter = \<lparr>writerId = uid @ ''-'' @ showNat now, writeRejects = False\<rparr>;
                 st1 = addChatClient uid customWriter st;
                 connected = [JObj [(''type'', JStr ''connected'')]];
                 history = historyFrames uid recipientId now st1;
                 queued = (case pendingEvents st1 uid of None \<Rightarrow> [] | Some q \<Rightarrow> q);
                 st2 = (if length queued > 0
                        then st1\<lparr>pendingEvents := (pendingEvents st1)(uid := None)\<rparr>
                        else st1);
                 heartbeat = [heartbeatEvent (isActive uid st2) isoNow]
             in Inr (connected @ history @ queued @ heartbeat, st2)))"

fun eventType :: "json \<Rightarrow> string" where
  "eventType ev = (case field ev ''type'' of Some (JStr t) \<Rightarrow> t | _ \<Rightarrow> [])"

section \<open>Session registry (SessionManager.ts)\<close>

definition newUser :: "string \<Rightarrow> User" where
  "newUser uid =
     \<lparr>userIdOf = uid, appSession = None, chatHistory = [],
      photo = \<lparr>photos = Map.empty, sseClients = [], currentPhoto = None,
               previousPhotos = [], photoWire = []\<rparr>\<rparr>"

definition getOrCreate :: "string \<Rightarrow> server \<Rightarrow> User \<times> server" where
  "getOrCreate uid st =
     (case users st uid of
        Some user \<Rightarrow> (user, st)
      | None \<Rightarrow> (newUser uid, st\<lparr>users := (users st)(uid \<mapsto> newUser uid)\<rparr>))"

definition clearTimeout :: "nat \<Rightarrow> server \<Rightarrow> server" where
  "clearTimeout t st = st\<lparr>timers := (timers st)(t := None), calls := calls st @ [ClearTimeout t]\<rparr>"

definition remove :: "string \<Rightarrow> server \<Rightarrow> server" where
  \<comment> \<open>\<open>user.cleanup()\<close> tears the user down; the user is deleted right after, so only the
      call is recorded.\<close>
  "remove uid st =
     (let st1 = (case pendingRemovals st uid of
                   None \<Rightarrow> st
                 | Some existingTimer \<Rightarrow>
                     (clearTimeout existingTimer st)
                       \<lparr>pendingRemovals := (pendingRemovals st)(uid := None)\<rparr>)
      in case users st1 uid of
           None \<Rightarrow> st1
         | Some user \<Rightarrow>
             st1\<lparr>users := (users st1)(uid := None),
                 calls := calls st1 @ [Cleanup uid, DeleteUser uid]\<rparr>)"

definition softRemove :: "string \<Rightarrow> nat \<Rightarrow> server \<Rightarrow> server" where
  "softRemove uid gracePeriodMs st =
     (case users st uid of
        None \<Rightarrow> st
      | Some user \<Rightarrow>
          (let st1 = st\<lparr>users := (users st)(uid \<mapsto> clearAppSession user),
                        calls := calls st @ [ClearAppSession uid]\<rparr>;
               st2 = (case pendingRemovals st1 uid of
                        None \<Rightarrow> st1
                      | Some existingTimer \<Rightarrow> clearTimeout existingTimer st1);
               timer = nextTimer st2
           in st2\<lparr>timers := (timers st2)(timer \<mapsto> (uid, gracePeriodMs)),
                  nextTimer := Suc timer,
                  pendingRemovals := (pendingRemovals st2)(uid \<mapsto> timer),
                  calls := calls st2 @ [SetTimeout timer gracePeriodMs]\<rparr>))"

definition sessionEnded :: "string \<Rightarrow> json" where
  "sessionEnded isoNow =
     JObj [(''type'', JStr ''session_ended''), (''reason'', JStr ''grace period expired''),
           (''timestamp'', JStr isoNow)]"

definition graceExpired :: "string \<Rightarrow> string \<Rightarrow> server \<Rightarrow> server" where
  \<comment> \<open>The callback that \<open>softRemove\<close> passes to \<open>setTimeout\<close>; \<open>isoNow\<close> is the time at
      which it runs.\<close>
  "graceExpired uid isoNow st =
     (let st1 = st\<lparr>pendingRemovals := (pendingRemovals st)(uid := None)\<rparr>;
          st2 = broadcastChatEvent uid (sessionEnded isoNow) st1;
          st3 = clearPendingEvents uid st2
      in remove uid st3)"

definition fireTimer :: "nat \<Rightarrow> string \<Rightarrow> server \<Rightarrow> server" where
  \<comment> \<open>An armed timeout expires: it leaves the set of armed timeouts and its callback
      runs. A handle that is not armed (never set, or cleared) does nothing.\<close>
  "fireTimer t isoNow st =
     (case timers st t of
        None \<Rightarrow> st
      | Some (uid, delay) \<Rightarrow> graceExpired uid isoNow (st\<lparr>timers := (timers st)(t := None)\<rparr>))"

definition cancelRemoval :: "string \<Rightarrow> server \<Rightarrow> bool \<times> server" where
  "cancelRemoval uid st =
     (case pendingRemovals st uid of
        None \<Rightarrow> (False, st)
      | Some timer \<Rightarrow>
          (True, (clearTimeout timer st)\<lparr>pendingRemovals := (pendingRemovals st)(uid := None)\<rparr>))"


section \<open>Query pipeline (QueryProcessor.ts)\<close>

datatype locationResult = LocationRejects | NoLocation | Location int int

record Env =
  \<comment> \<open>What the collaborators answer during one run of the pipeline. \<open>None\<close> for a
      call means that its promise rejects.\<close>
  PROCESSING_SOUND_URL :: "string option"
  cameraPhoto :: "CameraPhoto option"
  latestLocation :: locationResult
  cachedContext :: "string option"
  cachedTimezone :: "string option"
  localTime :: string
  notificationsPrompt :: string
  generateResponse :: "GenerateOptions \<Rightarrow> string option"
  formatForTTS :: "string \<Rightarrow> string"
  turnTime :: string
  previousPhotosToKeep :: nat

definition notConnected :: string where
  "notConnected = ''I'm not connected to your glasses right now.''"

definition apology :: string where
  "apology = ''I'm sorry, I had trouble processing that. Please try again.''"

definition queryNeedsLocation :: "string \<Rightarrow> bool" where
  \<comment> \<open>Modelled from the spec: \<open>LocationManager\<close> is not among the sources;
      \<open>queryNeedsLocation\<close> delegates to the classifier (section 4.4).\<close>
  "queryNeedsLocation q = isLocationQuery q"

definition playProcessingSound :: "Env \<Rightarrow> User \<Rightarrow> call list" where
  \<comment> \<open>A failure of \<open>playAudio\<close> is caught and logged.\<close>
  "playProcessingSound env u =
     (case PROCESSING_SOUND_URL env of
        None \<Rightarrow> []
      | Some url \<Rightarrow>
          if url = [] \<or> appSession u = None then [] else [PlayAudio url])"

definition formatResponse :: "Env \<Rightarrow> string \<Rightarrow> bool \<Rightarrow> bool \<Rightarrow> string" where
  "formatResponse env response speakers display =
     (if speakers \<and> \<not> display then formatForTTS env response else response)"

definition outputResponse :: "User \<Rightarrow> string \<Rightarrow> bool \<Rightarrow> bool \<Rightarrow> call list" where
  \<comment> \<open>A failure of \<open>showTextWall\<close> or \<open>speak\<close> is caught and logged.\<close>
  "outputResponse u response speakers display =
     (case appSession u of
        None \<Rightarrow> []
      | Some session \<Rightarrow>
          (if display then [ShowTextWall response 10000] else [])
          @ (if speakers then [Speak response] else []))"

definition capturePhoto :: "Env \<Rightarrow> AppSession \<Rightarrow> User \<Rightarrow> call list \<times> byte list list \<times> User" where
  \<comment> \<open>Step 1: a photo is requested when the glasses have a camera; when it is taken, the
      agent is given the current and the previous photos.\<close>
  "capturePhoto env session u =
     (if capFlag hasCamera False session
      then (case takePhoto (previousPhotosToKeep env) (appSession u \<noteq> None)
                   (userIdOf u) (cameraPhoto env) (photo u) of
              (Some taken, pm) \<Rightarrow> ([RequestPhoto], getPhotosForContext pm, u\<lparr>photo := pm\<rparr>)
            | (None, pm) \<Rightarrow> ([RequestPhoto], [], u\<lparr>photo := pm\<rparr>))
      else ([], [], u))"

definition fetchLocation :: "Env \<Rightarrow> string \<Rightarrow> call list" where
  \<comment> \<open>Step 2: a failure of the location calls is caught and logged.\<close>
  "fetchLocation env qry =
     (if queryNeedsLocation qry
      then GetLatestLocation #
           (case latestLocation env of
              Location lat lng \<Rightarrow> [UpdateCoordinates lat lng, FetchContextIfNeeded qry]
            | _ \<Rightarrow> [])
      else [])"

definition buildContext :: "Env \<Rightarrow> AppSession \<Rightarrow> User \<Rightarrow> AgentContext" where
  \<comment> \<open>Steps 3 and 4.\<close>
  "buildContext env session u =
     \<lparr>ctxHasDisplay = capFlag hasDisplay False session,
      ctxHasSpeakers = capFlag hasSpeaker True session,
      ctxHasCamera = capFlag hasCamera False session,
      ctxLocation = cachedContext env,
      ctxLocalTime = localTime env,
      ctxTimezone = cachedTimezone env,
      ctxNotifications = notificationsPrompt env,
      ctxConversationHistory = chatHistory u\<rparr>"

definition agentOptions :: "Env \<Rightarrow> AppSession \<Rightarrow> string \<Rightarrow> byte list list \<Rightarrow> User \<Rightarrow> GenerateOptions" where
  \<comment> \<open>The argument of \<open>generateResponse\<close> in step 5.\<close>
  "agentOptions env session qry photoList u =
     \<lparr>optQuery = qry,
      optPhotos = (if length photoList > 0 then Some photoList else None),
      optContext = buildContext env session u\<rparr>"

definition processQuery :: "Env \<Rightarrow> string \<Rightarrow> User \<Rightarrow> call list \<times> string \<times> User" where
  \<comment> \<open>The result is the calls made, in order, the returned response and the user
      afterwards.\<close>
  "processQuery env qry u =
     (case appSession u of
        None \<Rightarrow> ([], notConnected, u)
      | Some session \<Rightarrow>
          (let sound = playProcessingSound env u;
               (capture, photoList, u1) = capturePhoto env session u;
               locate = fetchLocation env qry;
               context = buildContext env session u1;
               options = agentOptions env session qry photoList u1;
               response =
                 (case generateResponse env options of
                    Some r \<Rightarrow> r
                  | None \<Rightarrow> apology);
               formattedResponse =
                 formatResponse env response (ctxHasSpeakers context) (ctxHasDisplay context);
               output =
                 outputResponse u1 formattedResponse (ctxHasSpeakers context)
                   (ctxHasDisplay context);
               hadPhotoNow = (length photoList > 0);
               u2 = addTurn (turnTime env) qry response hadPhotoNow u1
           in (sound @ capture @ locate @ [GenerateResponse options] @ output
                 @ [AddTurn qry response hadPhotoNow],
               response, u2)))"

fun isBroadcast :: "call \<Rightarrow> bool" where
  "isBroadcast (BroadcastChatEvent uid ev) = True"
| "isBroadcast _ = False"

fun isGenerate :: "call \<Rightarrow> bool" where
  "isGenerate (GenerateResponse options) = True"
| "isGenerate _ = False"

fun isAddTurn :: "call \<Rightarrow> bool" where
  "isAddTurn (AddTurn q r hp) = True"
| "isAddTurn _ = False"


section \<open>Example states\<close>

text \<open>Concrete states and environments, used to run the model on explicit inputs.\<close>

definition emptyServer :: server where
  \<comment> \<open>The state of the modules when the process starts.\<close>
  "emptyServer =
     \<lparr>chatClients = Map.empty, pendingEvents = Map.empty, chatWire = [], users = Map.empty,
      pendingRemovals = Map.empty, timers = Map.empty, nextTimer = 0, calls = []\<rparr>"

definition processingEvent :: json where
  "processingEvent = JObj [(''type'', JStr ''processing'')]"

definition lateSubscriberState :: server where
  \<comment> \<open>A user with one stored turn, and one event broadcast while no subscriber was
      connected.\<close>
  "lateSubscriberState =
     broadcastChatEvent ''u1'' processingEvent
       (emptyServer\<lparr>users := [''u1'' \<mapsto> addTurn ''t0'' ''hi'' ''hello'' False (newUser ''u1'')]\<rparr>)"

definition connectedUser :: server where
  \<comment> \<open>A registered user with one live chat subscriber.\<close>
  "connectedUser =
     snd (getOrCreate ''u1'' emptyServer)
       \<lparr>chatClients := [''u1'' \<mapsto> [\<lparr>writerId = ''u1-5'', writeRejects = False\<rparr>]]\<rparr>"

definition manPhoto :: CameraPhoto where
  \<comment> \<open>A photo of three bytes, the ASCII codes of "Man".\<close>
  "manPhoto = \<lparr>camRequestId = ''r1'', camBuffer = [0x4d, 0x61, 0x6e], camTimestamp = 1000,
               camMimeType = ''image/jpeg'', camFilename = ''r1.jpg'', camSize = 3\<rparr>"

definition oneClient :: PhotoManager where
  \<comment> \<open>A fresh photo manager with one live photo-stream client.\<close>
  "oneClient = (photo (newUser ''u1''))\<lparr>sseClients := [\<lparr>clientId = 7, writeThrows = False\<rparr>]\<rparr>"

definition numbered :: "nat \<Rightarrow> CameraPhoto" where
  \<comment> \<open>An empty photo whose request id ends in the decimal numeral of \<open>n\<close>.\<close>
  "numbered n = \<lparr>camRequestId = ''photo-'' @ showNat n, camBuffer = [], camTimestamp = int n,
                 camMimeType = ''image/jpeg'', camFilename = ''p.jpg'', camSize = 0\<rparr>"

definition fixedAgent :: "string option \<Rightarrow> GenerateOptions \<Rightarrow> string option" where
  \<comment> \<open>An agent that gives the same outcome to every request.\<close>
  "fixedAgent answer options = answer"

definition exampleEnv :: "string option \<Rightarrow> Env" where
  "exampleEnv answer =
     \<lparr>PROCESSING_SOUND_URL = None, cameraPhoto = None, latestLocation = NoLocation,
      cachedContext = None, cachedTimezone = None, localTime = ''12:00 PM'',
      notificationsPrompt = ''No recent notifications.'',
      generateResponse = fixedAgent answer, formatForTTS = id, turnTime = ''t5'',
      previousPhotosToKeep = 2\<rparr>"

definition glassesUser :: User where
  \<comment> \<open>A user whose glasses are attached and have not reported their capabilities.\<close>
  "glassesUser = (newUser ''u1'')\<lparr>appSession := Some \<lparr>capabilities = None\<rparr>\<rparr>"

definition quiet :: "call list \<Rightarrow> bool" where
  \<comment> \<open>No chat broadcast, no agent call and no \<open>addTurn\<close> among the calls.\<close>
  "quiet cs =
     (filter isBroadcast cs = [] \<and> filter isGenerate cs = [] \<and> filter isAddTurn cs = [])"

section \<open>Properties of the string primitives and the matcher\<close>

lemma toLowerChar_idem: "toLowerChar (toLowerChar c) = toLowerChar c"
  by (auto simp: toLowerChar_def Let_def)

lemma isWhiteSpace_toLowerChar: "isWhiteSpace (toLowerChar c) = isWhiteSpace c"
  by (auto simp: toLowerChar_def isWhiteSpace_def Let_def)

lemma trimEnd_append:
  "trimEnd (a @ b) = (if \<forall>c\<in>set b. isWhiteSpace c then trimEnd a else a @ trimEnd b)"
  by (simp add: trimEnd_def dropWhile_append)

lemma star_skip:
  assumes "\<forall>c\<in>set ws. inClass k c" and "matchItems ps s = Some r"
    and "s = [] \<or> \<not> inClass k (hd s)"
  shows "matchItems (Star k # ps) (ws @ s) = Some r"
  using assms
proof (induction ws)
  case Nil
  then show ?case by (cases s) auto
next
  case (Cons w ws)
  then show ?case by simp
qed

lemma wakeVariant_nonempty: "wakeVariant p w \<Longrightarrow> p \<noteq> [] \<Longrightarrow> w \<noteq> []"
  by (cases p; cases w) auto

lemma wakeVariant_hd: "wakeVariant p w \<Longrightarrow> p \<noteq> [] \<Longrightarrow> hd p \<noteq> CHR '' '' \<Longrightarrow> \<not> isWhiteSpace (hd p) \<Longrightarrow> \<not> isWhiteSpace (hd w)"
  apply (cases p; cases w) apply (auto simp: ciEq_def split: if_splits)
  by (metis isWhiteSpace_toLowerChar)

lemma ws_run_skip:
  assumes v: "wakeVariant ps (dropWhile isWhiteSpace cs)" and ne: "ps \<noteq> []"
    and m: "\<And>rest. matchItems items (toLowerCase (dropWhile isWhiteSpace cs) @ rest) = Some rest"
  shows "matchItems (Star WS # items) (toLowerCase cs @ rest) = Some rest"
proof -
  let ?d = "dropWhile isWhiteSpace cs" and ?t = "takeWhile isWhiteSpace cs"
  have dne: "?d \<noteq> []" using wakeVariant_nonempty[OF v ne] .
  then have "\<not> isWhiteSpace (hd ?d)" by (rule hd_dropWhile)
  then have hd: "\<not> inClass WS (hd (toLowerCase ?d @ rest))"
    using dne by (cases ?d) (auto simp: toLowerCase_def isWhiteSpace_toLowerChar)
  have all: "\<forall>c\<in>set (toLowerCase ?t). inClass WS c"
    by (auto simp: toLowerCase_def isWhiteSpace_toLowerChar dest: set_takeWhileD)
  have "toLowerCase cs @ rest = toLowerCase ?t @ (toLowerCase ?d @ rest)"
    unfolding toLowerCase_def by (metis append_assoc map_append takeWhile_dropWhile_id)
  then show ?thesis
    using star_skip[OF all m[of rest]] hd by simp
qed

lemma variant_matches:
  "wakeVariant p w \<Longrightarrow> goodPhrase p \<Longrightarrow>
   matchItems (buildPattern p) (toLowerCase w @ rest) = Some rest"
proof (induction p arbitrary: w rest)
  case Nil
  then show ?case by (simp add: toLowerCase_def)
next
  case (Cons ch ps)
  from Cons.prems(1) obtain c cs where w: "w = c # cs" by (cases w) auto
  have good: "goodPhrase ps" using Cons.prems(2) by (auto simp: goodPhrase_def split: if_splits)
  show ?case
  proof (cases "ch = CHR '' ''")
    case True
    with Cons.prems w have ws: "isWhiteSpace c" and v: "wakeVariant ps (dropWhile isWhiteSpace cs)"
      by auto
    from True Cons.prems(2) have ne: "ps \<noteq> []" by (auto simp: goodPhrase_def)
    have "matchItems (Star WS # buildPattern ps) (toLowerCase cs @ rest) = Some rest"
      by (rule ws_run_skip[OF v ne]) (rule Cons.IH[OF v good])
    with True ws w show ?thesis
      by (simp add: toLowerCase_def isWhiteSpace_toLowerChar)
  next
    case False
    with Cons.prems w have eq: "ciEq c ch" by auto
    then have eq': "ciEq (toLowerChar c) ch" by (simp add: ciEq_def toLowerChar_idem)
    show ?thesis
    proof (cases ps)
      case Nil
      with False Cons.prems w have "cs = []" by auto
      with Nil False w eq' show ?thesis by (simp add: toLowerCase_def)
    next
      case (Cons n ps')
      show ?thesis
      proof (cases "n = CHR '' ''")
        case True
        with False Cons \<open>wakeVariant (ch # ps) w\<close> w have v: "wakeVariant ps cs" by auto
        have "matchItems (buildPattern ps) (toLowerCase cs @ rest) = Some rest"
          by (rule Cons.IH[OF v good])
        with True False Cons w eq' show ?thesis by (simp add: toLowerCase_def)
      next
        case nsp: False
        with False Cons \<open>wakeVariant (ch # ps) w\<close> w
        have v: "wakeVariant ps (dropWhile isWhiteSpace cs)" by auto
        have ne: "ps \<noteq> []" using Cons by simp
        have "matchItems (Star WS # buildPattern ps) (toLowerCase cs @ rest) = Some rest"
          by (rule ws_run_skip[OF v ne]) (rule Cons.IH[OF v good])
        with nsp False Cons w eq' show ?thesis by (simp add: toLowerCase_def)
      qed
    qed
  qed
qed

lemma wakeVariant_last:
  "wakeVariant p w \<Longrightarrow> p \<noteq> [] \<Longrightarrow> \<not> isWhiteSpace (last p) \<Longrightarrow> \<not> isWhiteSpace (last w)"
proof (induction p arbitrary: w)
  case Nil
  then show ?case by simp
next
  case (Cons ch ps)
  from Cons.prems(1) obtain c cs where w: "w = c # cs" by (cases w) auto
  show ?case
  proof (cases ps)
    case Nil
    with Cons.prems w have "ch \<noteq> CHR '' ''" by (auto simp: isWhiteSpace_def)
    with Nil Cons.prems w have "cs = []" "ciEq c ch" by auto
    with Nil Cons.prems(3) w show ?thesis
      by (metis ciEq_def isWhiteSpace_toLowerChar last.simps)
  next
    case (Cons n ps')
    with Cons.prems w obtain w' where v: "wakeVariant ps w'" and
      w': "w' = cs \<or> w' = dropWhile isWhiteSpace cs"
      by (auto split: if_splits)
    have ne: "w' \<noteq> []" using wakeVariant_nonempty[OF v] Cons by simp
    have "last w = last w'"
    proof -
      from w' ne have "last cs = last w'"
        by (metis last_appendR takeWhile_dropWhile_id)
      moreover from w' ne have "cs \<noteq> []" by auto
      ultimately show ?thesis using w by simp
    qed
    moreover have "\<not> isWhiteSpace (last w')"
      using Cons.IH[OF v] Cons Cons.prems(3) by simp
    ultimately show ?thesis by simp
  qed
qed

lemma trimEnd_id: "s \<noteq> [] \<Longrightarrow> \<not> isWhiteSpace (last s) \<Longrightarrow> trimEnd s = s"
  by (cases s rule: rev_cases) (auto simp: trimEnd_def)

lemma trim_around:
  assumes ne: "a \<noteq> []" and h: "\<not> isWhiteSpace (hd a)" and l: "\<not> isWhiteSpace (last a)"
    and ws: "\<forall>c\<in>set ws. isWhiteSpace c"
  shows "trim (ws @ a @ rest) =
         a @ (if \<forall>c\<in>set rest. isWhiteSpace c then [] else trimEnd rest)"
proof -
  have "dropWhile isWhiteSpace (a @ rest) = a @ rest"
    using h ne by (cases a) auto
  then have "trimStart (ws @ a @ rest) = a @ rest"
    using ws by (simp add: trimStart_def dropWhile_append)
  then have "trim (ws @ a @ rest) = trimEnd (a @ rest)"
    by (simp add: trim_def)
  also have "\<dots> = a @ (if \<forall>c\<in>set rest. isWhiteSpace c then [] else trimEnd rest)"
    using trimEnd_id[OF ne l] by (simp add: trimEnd_append)
  finally show ?thesis .
qed

lemma wakeVariant_ends:
  assumes v: "wakeVariant ''hey mentra'' W"
  shows "W \<noteq> [] \<and> \<not> isWhiteSpace (hd W) \<and> \<not> isWhiteSpace (last W)"
proof -
  have ne: "''hey mentra'' \<noteq> []" by simp
  have "\<not> isWhiteSpace (hd W)"
    by (rule wakeVariant_hd[OF v ne]) (simp_all add: isWhiteSpace_def)
  moreover have "\<not> isWhiteSpace (last W)"
    by (rule wakeVariant_last[OF v ne]) (simp add: isWhiteSpace_def)
  ultimately show ?thesis using wakeVariant_nonempty[OF v ne] by simp
qed

lemma trim_around_variant:
  assumes v: "wakeVariant ''hey mentra'' W" and ws: "\<forall>c\<in>set ws. isWhiteSpace c"
  shows "\<exists>R. trim (toLowerCase (ws @ W @ rest)) = toLowerCase W @ R"
proof -
  from wakeVariant_ends[OF v]
  have Wne: "W \<noteq> []" and hdW: "\<not> isWhiteSpace (hd W)" and lastW: "\<not> isWhiteSpace (last W)"
    by simp_all
  have Lne: "toLowerCase W \<noteq> []" using Wne by (simp add: toLowerCase_def)
  have hdL: "\<not> isWhiteSpace (hd (toLowerCase W))"
    using hdW Wne by (cases W) (auto simp: toLowerCase_def isWhiteSpace_toLowerChar)
  have lastL: "\<not> isWhiteSpace (last (toLowerCase W))"
    using lastW Wne by (simp add: toLowerCase_def last_map isWhiteSpace_toLowerChar)
  have wsl: "\<forall>c\<in>set (toLowerCase ws). isWhiteSpace c"
    using ws by (simp add: toLowerCase_def isWhiteSpace_toLowerChar)
  have "toLowerCase (ws @ W @ rest) = toLowerCase ws @ toLowerCase W @ toLowerCase rest"
    by (simp add: toLowerCase_def)
  then show ?thesis
    using trim_around[OF Lne hdL lastL wsl, of "toLowerCase rest"] by auto
qed

lemma regexExec_at_start:
  "matchItems ps (a @ r) = Some r \<Longrightarrow> regexExec ps 0 (a @ r) = Some (0, length a)"
proof (cases "a @ r")
  assume m: "matchItems ps (a @ r) = Some r"
  case Nil
  then show ?thesis using m by simp
next
  assume m: "matchItems ps (a @ r) = Some r"
  case (Cons x xs)
  have "length (x # xs) = length a + length r"
    using Cons by (metis length_append)
  then show ?thesis using Cons m by simp
qed

lemma detect_variant:
  assumes v: "wakeVariant ''hey mentra'' W" and ws: "\<forall>c\<in>set ws. isWhiteSpace c"
  shows "detectWakeWord (ws @ W @ rest) =
    \<lparr>detected = True, query = tailQuery (drop (length W) (ws @ W @ rest)),
     wakeWordUsed = Some ''hey mentra''\<rparr>"
proof -
  define p where "p = ''hey mentra''"
  have good: "goodPhrase p" by (simp add: p_def goodPhrase_def)
  have v': "wakeVariant p W" using v by (simp add: p_def)
  obtain R where R: "trim (toLowerCase (ws @ W @ rest)) = toLowerCase W @ R"
    using trim_around_variant[OF v ws] by blast
  have "matchItems (buildPattern p) (toLowerCase W @ R) = Some R"
    by (rule variant_matches[OF v' good])
  then have ex: "regexExec (buildPattern p) 0 (toLowerCase W @ R) = Some (0, length W)"
    using regexExec_at_start[of "buildPattern p" "toLowerCase W" R] by (simp add: toLowerCase_def)
  have z: "zip WAKE_WORDS WAKE_PATTERNS = [(p, buildPattern p)]"
    by (simp add: WAKE_WORDS_def WAKE_PATTERNS_def p_def del: buildPattern.simps)
  show ?thesis
    unfolding detectWakeWord_def Let_def z R
    using ex by (simp add: p_def del: buildPattern.simps)
qed

lemma star_only: "matchItems [Star k] s = Some (dropWhile (inClass k) s)"
  by (induction s) auto

lemma stripLeadingPunct_dropWhile:
  "stripLeadingPunct s = dropWhile (inClass PUNCT_WS) s"
  by (cases s) (auto simp: stripLeadingPunct_def replaceAnchored_def star_only)

lemma trimEnd_decomp: "\<exists>b. s = trimEnd s @ b \<and> (\<forall>c\<in>set b. isWhiteSpace c)"
proof -
  have "rev s = takeWhile isWhiteSpace (rev s) @ dropWhile isWhiteSpace (rev s)" by simp
  then have "s = rev (dropWhile isWhiteSpace (rev s)) @ rev (takeWhile isWhiteSpace (rev s))"
    by (metis rev_append rev_rev_ident)
  moreover have "\<forall>c\<in>set (rev (takeWhile isWhiteSpace (rev s))). isWhiteSpace c"
    by (auto dest: set_takeWhileD)
  ultimately show ?thesis unfolding trimEnd_def by blast
qed

lemma trimEnd_dropWhile_trimEnd:
  assumes sub: "\<And>c. isWhiteSpace c \<Longrightarrow> P c"
  shows "trimEnd (dropWhile P (trimEnd s)) = trimEnd (dropWhile P s)"
proof -
  obtain b where s: "s = trimEnd s @ b" and b: "\<forall>c\<in>set b. isWhiteSpace c"
    using trimEnd_decomp by blast
  have bP: "dropWhile P b = []" using b sub by auto
  have "dropWhile P s = dropWhile P (trimEnd s @ b)" using s by simp
  also have "\<dots> = (if \<forall>x\<in>set (trimEnd s). P x then [] else dropWhile P (trimEnd s) @ b)"
    using bP by (simp add: dropWhile_append)
  finally have d: "dropWhile P s =
      (if \<forall>x\<in>set (trimEnd s). P x then [] else dropWhile P (trimEnd s) @ b)" .
  show ?thesis
  proof (cases "\<forall>x\<in>set (trimEnd s). P x")
    case True
    then have a: "dropWhile P (trimEnd s) = []" by simp
    have b': "dropWhile P s = []" by (subst d) (use True in auto)
    show ?thesis by (simp only: a b')
  next
    case False
    with d have "dropWhile P s = dropWhile P (trimEnd s) @ b" by simp
    then show ?thesis using b by (simp add: trimEnd_append)
  qed
qed

lemma trimStart_dropWhile:
  assumes sub: "\<And>c. isWhiteSpace c \<Longrightarrow> P c"
  shows "trimStart (dropWhile P s) = dropWhile P s"
proof (cases "dropWhile P s")
  case Nil
  show ?thesis unfolding trimStart_def Nil by simp
next
  case (Cons x xs)
  then have "\<not> P x" using hd_dropWhile[of P s] by auto
  then have "\<not> isWhiteSpace x" using sub by blast
  then show ?thesis unfolding trimStart_def Cons by simp
qed

lemma dropWhile_trimStart:
  assumes sub: "\<And>c. isWhiteSpace c \<Longrightarrow> P c"
  shows "dropWhile P (trimStart s) = dropWhile P s"
proof -
  have "s = takeWhile isWhiteSpace s @ dropWhile isWhiteSpace s" by simp
  then have "dropWhile P s = dropWhile P (takeWhile isWhiteSpace s @ dropWhile isWhiteSpace s)"
    by simp
  also have "\<dots> = dropWhile P (dropWhile isWhiteSpace s)"
    using sub by (subst dropWhile_append) (auto dest: set_takeWhileD)
  finally show ?thesis by (simp add: trimStart_def)
qed

lemma tailQuery_eq: "tailQuery s = trimEnd (dropWhile (inClass PUNCT_WS) s)"
proof -
  have sub: "\<And>c. isWhiteSpace c \<Longrightarrow> inClass PUNCT_WS c" by simp
  have "tailQuery s = trim (dropWhile (inClass PUNCT_WS) (trimEnd (trimStart s)))"
    by (simp add: tailQuery_def stripLeadingPunct_dropWhile trim_def)
  also have "\<dots> = trimEnd (dropWhile (inClass PUNCT_WS) (trimEnd (trimStart s)))"
    unfolding trim_def using trimStart_dropWhile[of "inClass PUNCT_WS"] sub by simp
  also have "\<dots> = trimEnd (dropWhile (inClass PUNCT_WS) (trimStart s))"
    using trimEnd_dropWhile_trimEnd[of "inClass PUNCT_WS"] sub by simp
  also have "\<dots> = trimEnd (dropWhile (inClass PUNCT_WS) s)"
    using dropWhile_trimStart[of "inClass PUNCT_WS"] sub by simp
  finally show ?thesis .
qed

lemma trim_stripLeadingPunct: "trim (stripLeadingPunct s) = tailQuery s"
proof -
  have sub: "\<And>c. isWhiteSpace c \<Longrightarrow> inClass PUNCT_WS c" by simp
  show ?thesis
    unfolding tailQuery_eq stripLeadingPunct_dropWhile trim_def
    using trimStart_dropWhile[of "inClass PUNCT_WS"] sub by simp
qed

lemma tailQuery_comma: "tailQuery ('', '' @ q) = tailQuery q"
  by (simp add: tailQuery_eq isWhiteSpace_def)

lemma FRAGMENTS_eq: "FRAGMENTS = [''a'', ''ra'', ''tra'', ''ntra'', ''entra'']"
  by code_simp

lemma lits_match:
  "matchItems (map Lit f @ ps) t =
     (if startsWithCI t f then matchItems ps (drop (length f) t) else None)"
  by (induction t f rule: startsWithCI.induct) auto

lemma plus_none: "(case s of [] \<Rightarrow> False | c # _ \<Rightarrow> inClass k c) = False \<Longrightarrow> matchItems (Plus k # ps) s = None"
  by (cases s) auto

lemma alt_none:
  "(\<forall>f\<in>set fs. matchItems (map Lit f @ ps) t = None) \<Longrightarrow> matchItems (Alt fs # ps) t = None"
  by (induction fs) auto

lemma residue_no_match:
  assumes "\<not> beginsWithResidue t"
  shows "matchItems WAKE_WORD_TRAILING_FRAGMENTS t = None"
  unfolding WAKE_WORD_TRAILING_FRAGMENTS_def FRAGMENTS_eq
proof (rule alt_none, rule ballI)
  fix f assume f: "f \<in> set [''a'', ''ra'', ''tra'', ''ntra'', ''entra'']"
  with assms have "\<not> (startsWithCI t f \<and> (case drop (length f) t of [] \<Rightarrow> False | c # _ \<Rightarrow> inClass PUNCT c))"
    unfolding beginsWithResidue_def by blast
  then show "matchItems (map Lit f @ [Plus PUNCT, Star WS]) t = None"
    by (auto simp: lits_match plus_none simp del: inClass.simps)
qed

lemma startsWith_append: "startsWith (s @ r) s"
  by (induction s) auto

lemma tailQuery_keeps:
  assumes ne: "s \<noteq> []" and h: "\<not> inClass PUNCT_WS (hd s)" and l: "\<not> isWhiteSpace (last s)"
  shows "startsWith (tailQuery (s @ rest)) s"
proof -
  have "dropWhile (inClass PUNCT_WS) (s @ rest) = s @ rest"
    using ne h by (cases s) auto
  then have "tailQuery (s @ rest) = trimEnd (s @ rest)"
    by (simp only: tailQuery_eq)
  also have "\<dots> = s @ (if \<forall>c\<in>set rest. isWhiteSpace c then [] else trimEnd rest)"
    using trimEnd_id[OF ne l] by (simp add: trimEnd_append)
  finally show ?thesis by (simp only: startsWith_append)
qed

lemma final_chars_kept:
  assumes v: "wakeVariant ''hey mentra'' W" and ne: "ws \<noteq> []" and le: "length ws \<le> length W"
    and h: "\<not> inClass PUNCT_WS (hd (drop (length W - length ws) W))"
  shows "startsWith (tailQuery (drop (length W - length ws) W @ rest)) (drop (length W - length ws) W)"
proof -
  let ?s = "drop (length W - length ws) W"
  from wakeVariant_ends[OF v] have Wne: "W \<noteq> []" and lastW: "\<not> isWhiteSpace (last W)" by simp_all
  have lt: "length W - length ws < length W" using ne le Wne by (cases ws) auto
  then have sne: "?s \<noteq> []" by simp
  have "last ?s = last W" using lt by (rule last_drop)
  with lastW have l: "\<not> isWhiteSpace (last ?s)" by simp
  show ?thesis by (rule tailQuery_keeps[OF sne h l])
qed

section \<open>Properties of the classifier, the event queue, the photo store and the pipeline\<close>

lemma someIncluded_mem: "kw \<in> set kws \<Longrightarrow> includesStr q kw \<Longrightarrow> someIncluded kws q"
  by (auto simp: someIncluded_def list_ex_iff)

lemma getRecentTurns_empty: "(getRecentTurns n ts = []) = (ts = [] \<or> n = 0)"
  by (cases ts) (auto simp: getRecentTurns_def)

lemma historyFrames_addChatClient:
  "historyFrames uid rcp now (addChatClient uid w st) = historyFrames uid rcp now st"
  by (simp add: historyFrames_def addChatClient_def)

lemma pendingEvents_addChatClient: "pendingEvents (addChatClient uid w st) = pendingEvents st"
  by (simp add: addChatClient_def)

lemma users_addChatClient: "users (addChatClient uid w st) = users st"
  by (simp add: addChatClient_def)

lemma historyFrames_cases: "historyFrames uid rcp now st =
           (case users st uid of
              None \<Rightarrow> []
            | Some user \<Rightarrow>
                if chatHistory user = [] then []
                else [historyEvent uid rcp now (getRecentTurns 30 (chatHistory user))])"
    by (simp add: historyFrames_def Let_def getRecentTurns_empty split: option.splits)

lemma chatStream_open:
  assumes "uid \<noteq> []" and "pendingEvents st uid = Some queued" and "queued \<noteq> []"
  shows "chatStream (Some uid) rcp now isoNow st =
           Inr (JObj [(''type'', JStr ''connected'')] # historyFrames uid rcp now st
                  @ queued @ [heartbeatEvent (isActive uid st) isoNow],
                (addChatClient uid \<lparr>writerId = uid @ ''-'' @ showNat now, writeRejects = False\<rparr> st)
                  \<lparr>pendingEvents := (pendingEvents st)(uid := None)\<rparr>)"
  using assms
  by (simp add: chatStream_def Let_def pendingEvents_addChatClient historyFrames_addChatClient
        isActive_def users_addChatClient)

lemma lateSubscriberState_pending:
  "pendingEvents lateSubscriberState ''u1'' = Some [processingEvent]"
  by (simp add: lateSubscriberState_def broadcastChatEvent_def enqueue_def emptyServer_def Let_def)

lemma takePhoto_wire:
  "photoWire (snd (takePhoto k True uid (Some p) pm)) =
     photoWire pm @ map (\<lambda>c. (clientId c, photoPayload (storedOf uid p)))
                        (filter (\<lambda>c. \<not> writeThrows c) (sseClients pm))"
  by (simp add: takePhoto_def Let_def broadcastPhoto_def rotatePhotos_def storedOf_def
        split: option.splits)

lemma photos_takePhoto:
  "photos (snd (takePhoto k True uid (Some p) pm)) = (photos pm)(camRequestId p \<mapsto> storedOf uid p)"
  by (simp add: takePhoto_def Let_def broadcastPhoto_def rotatePhotos_def storedOf_def
        split: option.splits)

lemma dom_takePhotos:
  "dom (photos (takePhotos k uid ps pm)) = dom (photos pm) \<union> camRequestId ` set ps"
  by (induction ps arbitrary: pm) (auto simp: photos_takePhoto)

lemma find_snoc:
  "find P (xs @ [x]) =
     (case find P xs of Some y \<Rightarrow> Some y | None \<Rightarrow> if P x then Some x else None)"
  by (induction xs) auto

lemma calls_broadcast: "calls (broadcastChatEvent uid ev st) = calls st @ [BroadcastChatEvent uid ev]"
  by (simp add: broadcastChatEvent_def Let_def enqueue_def split: option.splits)

lemma users_broadcast: "users (broadcastChatEvent uid ev st) = users st"
  by (simp add: broadcastChatEvent_def Let_def enqueue_def split: option.splits)

lemma pendingRemovals_broadcast: "pendingRemovals (broadcastChatEvent uid ev st) = pendingRemovals st"
  by (simp add: broadcastChatEvent_def Let_def enqueue_def split: option.splits)

lemma timers_broadcast: "timers (broadcastChatEvent uid ev st) = timers st"
  by (simp add: broadcastChatEvent_def Let_def enqueue_def split: option.splits)

lemma chatWire_broadcast:
  "chatWire (broadcastChatEvent uid ev st) =
     chatWire st @ map (\<lambda>w. (writerId w, ev))
       (filter (\<lambda>w. \<not> writeRejects w) (case chatClients st uid of None \<Rightarrow> [] | Some ws \<Rightarrow> ws))"
  by (auto simp: broadcastChatEvent_def Let_def enqueue_def split: option.splits)

lemma quiet_append: "quiet (a @ b) = (quiet a \<and> quiet b)"
  by (auto simp: quiet_def)

lemma quiet_sound: "quiet (playProcessingSound env u)"
  by (simp add: playProcessingSound_def quiet_def split: option.splits)

lemma quiet_output: "quiet (outputResponse u r sp di)"
  by (simp add: outputResponse_def quiet_def split: option.splits)

lemma quiet_locate: "quiet (fetchLocation env q)"
  by (simp add: fetchLocation_def quiet_def split: locationResult.splits)

lemma capturePhoto_quiet: "capturePhoto env session u = (capture, photoList, u1) \<Longrightarrow> quiet capture"
  unfolding capturePhoto_def
  by (cases "takePhoto (previousPhotosToKeep env) (appSession u \<noteq> None) (userIdOf u) (cameraPhoto env) (photo u)";
      cases "fst (takePhoto (previousPhotosToKeep env) (appSession u \<noteq> None) (userIdOf u) (cameraPhoto env) (photo u))")
     (auto simp: quiet_def split: if_splits)

lemma processQuery_unfold:
  assumes s: "appSession u = Some session"
    and c: "capturePhoto env session u = (capture, photoList, u1)"
  shows "processQuery env q u =
    ((playProcessingSound env u @ capture @ fetchLocation env q) @
       GenerateResponse (agentOptions env session q photoList u1) #
       outputResponse u1
         (formatResponse env
            (case generateResponse env (agentOptions env session q photoList u1) of
               Some r \<Rightarrow> r | None \<Rightarrow> apology)
            (capFlag hasSpeaker True session) (capFlag hasDisplay False session))
         (capFlag hasSpeaker True session) (capFlag hasDisplay False session) @
       [AddTurn q (case generateResponse env (agentOptions env session q photoList u1) of
               Some r \<Rightarrow> r | None \<Rightarrow> apology) (length photoList > 0)],
     (case generateResponse env (agentOptions env session q photoList u1) of
               Some r \<Rightarrow> r | None \<Rightarrow> apology),
     addTurn (turnTime env) q
       (case generateResponse env (agentOptions env session q photoList u1) of
               Some r \<Rightarrow> r | None \<Rightarrow> apology) (length photoList > 0) u1)"
  by (simp add: processQuery_def s c Let_def buildContext_def)


section \<open>Wake word detection: the claims\<close>

lemma leading_ws_example:
  "query (detectWakeWord ''  hey mentra what time is it'') = ''ra what time is it'' \<and>
   query (detectWakeWord (trim ''  hey mentra what time is it'')) = ''what time is it''"
  by code_simp

text \<open>
  Claim C5, as amended. For every query string \<open>Q\<close> and every whitespace variant \<open>W\<close>
  of the wake phrase "hey mentra" (letters in any case, any whitespace between the letters
  of a word, at least one whitespace character between the words, so also "hey  mentra"
  and "hey mentr a"), \<open>detectWakeWord\<close> applied to \<open>W\<close> followed by \<open>", "\<close> and \<open>Q\<close>
  reports a detection, and the returned query is \<open>Q\<close> with leading \<open>[,.\s]+\<close> stripped
  and then trimmed: trailing whitespace of \<open>Q\<close> is removed as well.
\<close>

theorem detectWakeWord_variant_query:
  assumes "wakeVariant ''hey mentra'' W"
  shows "detectWakeWord (W @ '', '' @ Q) =
           \<lparr>detected = True, query = trim (stripLeadingPunct Q),
            wakeWordUsed = Some ''hey mentra''\<rparr>"
proof -
  have "detectWakeWord ([] @ W @ ('', '' @ Q)) =
          \<lparr>detected = True, query = tailQuery (drop (length W) ([] @ W @ ('', '' @ Q))),
           wakeWordUsed = Some ''hey mentra''\<rparr>"
    by (rule detect_variant[OF assms]) simp
  moreover have "tailQuery ('', '' @ Q) = trim (stripLeadingPunct Q)"
    by (simp only: tailQuery_comma trim_stripLeadingPunct)
  ultimately show ?thesis by simp
qed

text \<open>
  Claim C5, witness: the variant "Hey  Mentr a" (capitals, a double space, a split last
  word) in front of a query that ends in a space.
\<close>

theorem detectWakeWord_variant_query_witness:
  "wakeVariant ''hey mentra'' ''Hey  Mentr a'' \<and>
   detectWakeWord (''Hey  Mentr a'' @ '', '' @ ''what time is it '') =
     \<lparr>detected = True, query = ''what time is it'', wakeWordUsed = Some ''hey mentra''\<rparr>"
proof -
  have v: "wakeVariant ''hey mentra'' ''Hey  Mentr a''" by code_simp
  have r: "trim (stripLeadingPunct ''what time is it '') = ''what time is it''" by code_simp
  show ?thesis
    using v detectWakeWord_variant_query[OF v, of "''what time is it ''"] r by simp
qed

text \<open>
  Claim C5, counterexample to the claim as stated: for \<open>Q = "hi "\<close> the returned query
  is "hi", while \<open>Q\<close> after stripping leading \<open>[,.\s]+\<close> is still "hi " with its
  trailing space.
\<close>

theorem detectWakeWord_trailing_space_counterexample:
  "wakeVariant ''hey mentra'' ''hey mentra'' \<and>
   query (detectWakeWord (''hey mentra'' @ '', '' @ ''hi '')) = ''hi'' \<and>
   stripLeadingPunct ''hi '' = ''hi '' \<and>
   query (detectWakeWord (''hey mentra'' @ '', '' @ ''hi '')) \<noteq> stripLeadingPunct ''hi ''"
  by code_simp

text \<open>
  Claim C9, as amended. For every text \<open>t\<close> that does not begin with a 1-to-5-character
  suffix of "mentra" (compared without regard to letter case, as the pattern is) followed
  by a character of \<open>[,.!?;:]\<close>, \<open>stripWakeWordResidue t\<close> is \<open>t\<close> trimmed: nothing
  but leading and trailing whitespace is removed.
\<close>

theorem stripWakeWordResidue_no_fragment:
  "\<not> beginsWithResidue t \<Longrightarrow> stripWakeWordResidue t = trim t"
  by (simp add: stripWakeWordResidue_def replaceAnchored_def residue_no_match)

text \<open>
  Claim C9, witness: "are you there " begins with "a" but no punctuation follows.
\<close>

theorem stripWakeWordResidue_no_fragment_witness:
  "\<not> beginsWithResidue ''are you there '' \<and>
   stripWakeWordResidue ''are you there '' = trim ''are you there '' \<and>
   trim ''are you there '' = ''are you there''"
proof -
  have h: "\<not> beginsWithResidue ''are you there ''" by code_simp
  have r: "trim ''are you there '' = ''are you there''" by code_simp
  show ?thesis using h stripWakeWordResidue_no_fragment[OF h] r by simp
qed

text \<open>
  Claim C9, counterexample to the claim as stated: " what time" does not begin with a
  fragment, and the stripper is not the identity on it, for it removes the leading space.
\<close>

theorem stripWakeWordResidue_identity_counterexample:
  "\<not> beginsWithResidue '' what time'' \<and>
   stripWakeWordResidue '' what time'' = ''what time'' \<and>
   stripWakeWordResidue '' what time'' \<noteq> '' what time''"
  by code_simp

text \<open>
  Claim C10, as amended. \<open>detectWakeWord\<close> is not invariant under leading whitespace.
  The match is found on the trimmed lowercased text and the tail is sliced from the
  original: with \<open>n \<ge> 1\<close> whitespace characters \<open>ws\<close> in front of a wake phrase variant
  \<open>W\<close>, the slice starts \<open>n\<close> characters before the end of the wake phrase, so the
  returned query is the clean-up (trim, strip leading \<open>[,.\s]+\<close>, trim) of the final
  \<open>n\<close> characters of the region \<open>ws @ W\<close> followed by the tail, where the query of the
  trimmed text is the clean-up of the tail alone. The query begins with the final \<open>n\<close>
  characters of the wake phrase when \<open>n\<close> is at most the length of the phrase and the
  first of those characters is not one of \<open>[,.\s]\<close>; otherwise the clean-up removes the
  leading part of them. The text "  hey mentra what time is it" is an instance: its query
  differs from the query of the trimmed text.
\<close>

theorem detectWakeWord_leading_whitespace:
  assumes ne: "ws \<noteq> []" and ws: "\<forall>c\<in>set ws. isWhiteSpace c"
    and v: "wakeVariant ''hey mentra'' W"
  shows "detected (detectWakeWord (ws @ W @ rest)) \<and>
         query (detectWakeWord (ws @ W @ rest)) = tailQuery (drop (length W) (ws @ W) @ rest) \<and>
         length (drop (length W) (ws @ W)) = length ws \<and>
         (length ws \<le> length W \<longrightarrow> drop (length W) (ws @ W) = drop (length W - length ws) W) \<and>
         (length ws \<le> length W \<and> \<not> inClass PUNCT_WS (hd (drop (length W - length ws) W)) \<longrightarrow>
            startsWith (query (detectWakeWord (ws @ W @ rest))) (drop (length W - length ws) W)) \<and>
         query (detectWakeWord (trim (ws @ W @ rest))) = tailQuery rest \<and>
         query (detectWakeWord ''  hey mentra what time is it'')
           \<noteq> query (detectWakeWord (trim ''  hey mentra what time is it''))"
proof -
  have d: "detectWakeWord (ws @ W @ rest) =
    \<lparr>detected = True, query = tailQuery (drop (length W) (ws @ W @ rest)),
     wakeWordUsed = Some ''hey mentra''\<rparr>"
    by (rule detect_variant[OF v ws])
  have sl: "drop (length W) (ws @ W @ rest) = drop (length W) (ws @ W) @ rest"
    by simp
  from wakeVariant_ends[OF v]
  have Wne: "W \<noteq> []" and hdW: "\<not> isWhiteSpace (hd W)" and lastW: "\<not> isWhiteSpace (last W)"
    by simp_all
  define R where "R = (if \<forall>c\<in>set rest. isWhiteSpace c then [] else trimEnd rest)"
  have t: "trim (ws @ W @ rest) = W @ R"
    unfolding R_def by (rule trim_around[OF Wne hdW lastW ws])
  have "detectWakeWord ([] @ W @ R) =
    \<lparr>detected = True, query = tailQuery (drop (length W) ([] @ W @ R)),
     wakeWordUsed = Some ''hey mentra''\<rparr>"
    by (rule detect_variant[OF v]) simp
  then have q: "query (detectWakeWord (trim (ws @ W @ rest))) = tailQuery R"
    using t by simp
  have "tailQuery R = tailQuery rest"
  proof (cases "\<forall>c\<in>set rest. isWhiteSpace c")
    case True
    then have e: "dropWhile (inClass PUNCT_WS) rest = []" by simp
    have r: "R = []" using True by (simp add: R_def)
    show ?thesis unfolding tailQuery_eq r e by simp
  next
    case False
    have sub: "\<And>c. isWhiteSpace c \<Longrightarrow> inClass PUNCT_WS c" by simp
    have r: "R = trimEnd rest" using False by (simp only: R_def if_False)
    show ?thesis
      unfolding r tailQuery_eq
      using trimEnd_dropWhile_trimEnd[of "inClass PUNCT_WS" rest] sub by blast
  qed
  with q have q': "query (detectWakeWord (trim (ws @ W @ rest))) = tailQuery rest" by simp
  have ex: "query (detectWakeWord ''  hey mentra what time is it'')
           \<noteq> query (detectWakeWord (trim ''  hey mentra what time is it''))"
    using leading_ws_example by simp
  have keep: "length ws \<le> length W \<and> \<not> inClass PUNCT_WS (hd (drop (length W - length ws) W)) \<longrightarrow>
            startsWith (query (detectWakeWord (ws @ W @ rest))) (drop (length W - length ws) W)"
  proof (intro impI, elim conjE)
    assume le: "length ws \<le> length W"
      and h: "\<not> inClass PUNCT_WS (hd (drop (length W - length ws) W))"
    have "drop (length W) (ws @ W) = drop (length W - length ws) W" using le by simp
    then have "query (detectWakeWord (ws @ W @ rest)) =
                 tailQuery (drop (length W - length ws) W @ rest)"
      using d sl by simp
    then show "startsWith (query (detectWakeWord (ws @ W @ rest))) (drop (length W - length ws) W)"
      using final_chars_kept[OF v ne le h, of rest] by simp
  qed
  show ?thesis using d sl q' ex keep by simp
qed

text \<open>
  Claim C10, witness: three spaces in front of "Hey Mentra what time is it" leave "tra"
  in the query.
\<close>

theorem detectWakeWord_leading_whitespace_witness:
  "''   '' \<noteq> [] \<and> isWhiteSpace (CHR '' '') \<and> wakeVariant ''hey mentra'' ''Hey Mentra'' \<and>
   length ''   '' \<le> length ''Hey Mentra'' \<and>
   drop (length ''Hey Mentra'') (''   '' @ ''Hey Mentra'') = ''tra'' \<and>
   query (detectWakeWord (''   '' @ ''Hey Mentra'' @ '' what time is it'')) = ''tra what time is it'' \<and>
   startsWith (query (detectWakeWord (''   '' @ ''Hey Mentra'' @ '' what time is it''))) ''tra'' \<and>
   query (detectWakeWord (trim (''   '' @ ''Hey Mentra'' @ '' what time is it''))) = ''what time is it''"
proof -
  have ne: "''   '' \<noteq> []" by simp
  have ws: "\<forall>c\<in>set ''   ''. isWhiteSpace c" by (simp add: isWhiteSpace_def)
  have v: "wakeVariant ''hey mentra'' ''Hey Mentra''" by code_simp
  have t1: "tailQuery (drop (length ''Hey Mentra'') (''   '' @ ''Hey Mentra'') @ '' what time is it'') = ''tra what time is it''"
    by code_simp
  have t2: "tailQuery '' what time is it'' = ''what time is it''" by code_simp
  have h: "\<not> inClass PUNCT_WS (hd (drop (length ''Hey Mentra'' - length ''   '') ''Hey Mentra''))"
    by (simp add: isWhiteSpace_def)
  show ?thesis
    using detectWakeWord_leading_whitespace[OF ne ws v, of "'' what time is it''"] ne ws v t1 t2 h
    by simp
qed

text \<open>
  Claim C10, counterexample to the claim as stated: the final \<open>n\<close> characters are not
  always retained. With two spaces in front of "hey mentr a what time" the final two
  characters of the wake phrase are " a" and the query is "a what time", which neither
  begins with " a" nor contains it. With twelve spaces in front of "hey mentra hi there"
  the final twelve characters of the region are two spaces and the whole phrase, and the
  query "hey mentra hi there" neither begins with them nor contains them.
\<close>

theorem detectWakeWord_final_chars_counterexample:
  "isWhiteSpace (CHR '' '') \<and> wakeVariant ''hey mentra'' ''hey mentr a''
   \<and> drop (length ''hey mentr a'' - length ''  '') ''hey mentr a'' = '' a''
   \<and> query (detectWakeWord (''  '' @ ''hey mentr a'' @ '' what time'')) = ''a what time''
   \<and> \<not> startsWith (query (detectWakeWord (''  '' @ ''hey mentr a'' @ '' what time''))) '' a''
   \<and> \<not> includesStr (query (detectWakeWord (''  '' @ ''hey mentr a'' @ '' what time''))) '' a''
   \<and> wakeVariant ''hey mentra'' ''hey mentra''
   \<and> length ''            '' = 12
   \<and> drop (length ''hey mentra'') (''            '' @ ''hey mentra'') = ''  hey mentra''
   \<and> query (detectWakeWord (''            '' @ ''hey mentra'' @ '' hi there''))
       = ''hey mentra hi there''
   \<and> \<not> includesStr (query (detectWakeWord (''            '' @ ''hey mentra'' @ '' hi there'')))
          ''  hey mentra''"
  by code_simp

section \<open>Location classifier: the claim\<close>

text \<open>
  Claim C4, as amended. Containment is tested on the lowercased query, as the classifiers
  do. If the query contains a weather keyword and neither " in " nor " at ", then
  \<open>isLocationQuery\<close> is true and \<open>needsGeocoding\<close> is false. If the query contains a
  keyword of the location set, then \<open>needsGeocoding\<close> is true provided the weather
  exception does not apply: the query contains no weather keyword, or it contains " in "
  or " at ".
\<close>

theorem classifier_weather_location:
  "(kw \<in> set WEATHER_KEYWORDS \<and> includesStr (toLowerCase q) kw
      \<and> \<not> includesStr (toLowerCase q) '' in '' \<and> \<not> includesStr (toLowerCase q) '' at ''
     \<longrightarrow> isLocationQuery q \<and> \<not> needsGeocoding q)
   \<and> (lk \<in> set LOCATION_KEYWORDS \<and> includesStr (toLowerCase q) lk
        \<and> (\<not> someIncluded WEATHER_KEYWORDS (toLowerCase q)
             \<or> includesStr (toLowerCase q) '' in '' \<or> includesStr (toLowerCase q) '' at '')
       \<longrightarrow> needsGeocoding q)"
  by (auto simp: isLocationQuery_def needsGeocoding_def Let_def dest: someIncluded_mem)

text \<open>
  Claim C4, witness: "Weather nearby?" for the first half, "What city is this" for the
  second.
\<close>

theorem classifier_weather_location_witness:
  "''weather'' \<in> set WEATHER_KEYWORDS \<and> includesStr (toLowerCase ''Weather nearby?'') ''weather''
   \<and> \<not> includesStr (toLowerCase ''Weather nearby?'') '' in ''
   \<and> \<not> includesStr (toLowerCase ''Weather nearby?'') '' at ''
   \<and> isLocationQuery ''Weather nearby?'' \<and> \<not> needsGeocoding ''Weather nearby?''
   \<and> ''what city'' \<in> set LOCATION_KEYWORDS
   \<and> includesStr (toLowerCase ''What city is this'') ''what city''
   \<and> \<not> someIncluded WEATHER_KEYWORDS (toLowerCase ''What city is this'')
   \<and> needsGeocoding ''What city is this''"
proof -
  have a: "''weather'' \<in> set WEATHER_KEYWORDS" by (simp add: WEATHER_KEYWORDS_def)
  have b: "includesStr (toLowerCase ''Weather nearby?'') ''weather''" by code_simp
  have c: "\<not> includesStr (toLowerCase ''Weather nearby?'') '' in ''" by code_simp
  have d: "\<not> includesStr (toLowerCase ''Weather nearby?'') '' at ''" by code_simp
  have e: "''what city'' \<in> set LOCATION_KEYWORDS" by (simp add: LOCATION_KEYWORDS_def)
  have f: "includesStr (toLowerCase ''What city is this'') ''what city''" by code_simp
  have g: "\<not> someIncluded WEATHER_KEYWORDS (toLowerCase ''What city is this'')" by code_simp
  show ?thesis
    using classifier_weather_location[of "''weather''" "''Weather nearby?''" "''what city''"]
      classifier_weather_location[of "''weather''" "''What city is this''" "''what city''"]
      a b c d e f g by blast
qed

text \<open>
  Claim C4, counterexample to the claim as stated: "weather nearby" contains the location
  keyword "nearby", and \<open>needsGeocoding\<close> is false on it, because the weather exception
  returns first.
\<close>

theorem needsGeocoding_location_keyword_counterexample:
  "''nearby'' \<in> set LOCATION_KEYWORDS
   \<and> includesStr ''weather nearby'' ''nearby''
   \<and> includesStr (toLowerCase ''weather nearby'') ''nearby''
   \<and> \<not> needsGeocoding ''weather nearby''"
  by code_simp

section \<open>Chat stream: the claim\<close>

text \<open>
  Claim C1, as amended. When a chat-stream subscriber connects for a user whose pending
  event queue is non-empty, the handler writes to that subscriber, in this order: the
  \<open>connected\<close> event, the history event, the queued events in queue order, and a
  heartbeat; the queue is then deleted. The history event is written exactly when the user
  is registered and has at least one turn, whether or not queued events are flushed:
  flush and history replay are not exclusive.
\<close>

theorem chatStream_flush_and_history:
  assumes "uid \<noteq> []" and "pendingEvents st uid = Some queued" and "queued \<noteq> []"
  shows "fst (projr (chatStream (Some uid) rcp now isoNow st)) =
           JObj [(''type'', JStr ''connected'')] # historyFrames uid rcp now st
             @ queued @ [heartbeatEvent (isActive uid st) isoNow]
         \<and> pendingEvents (snd (projr (chatStream (Some uid) rcp now isoNow st))) uid = None
         \<and> historyFrames uid rcp now st =
             (case users st uid of
                None \<Rightarrow> []
              | Some user \<Rightarrow>
                  if chatHistory user = [] then []
                  else [historyEvent uid rcp now (getRecentTurns 30 (chatHistory user))])"
  using chatStream_open[OF assms, of rcp now isoNow] historyFrames_cases[of uid rcp now st]
  by simp

text \<open>
  Claim C1, witness: a user with one stored turn and one queued \<open>processing\<close> event.
\<close>

theorem chatStream_flush_and_history_witness:
  "''u1'' \<noteq> [] \<and> pendingEvents lateSubscriberState ''u1'' = Some [processingEvent]
   \<and> [processingEvent] \<noteq> []
   \<and> fst (projr (chatStream (Some ''u1'') None 17 ''t1'' lateSubscriberState)) =
       JObj [(''type'', JStr ''connected'')] # historyFrames ''u1'' None 17 lateSubscriberState
         @ [processingEvent] @ [heartbeatEvent (isActive ''u1'' lateSubscriberState) ''t1'']
   \<and> pendingEvents (snd (projr (chatStream (Some ''u1'') None 17 ''t1'' lateSubscriberState))) ''u1'' = None"
proof -
  have a: "''u1'' \<noteq> []" by simp
  have c: "[processingEvent] \<noteq> []" by simp
  from chatStream_flush_and_history[OF a lateSubscriberState_pending c, of None 17 "''t1''"]
  show ?thesis using lateSubscriberState_pending by simp
qed

text \<open>
  Claim C1, counterexample to the claim as stated: for that user the subscriber is sent
  a \<open>history\<close> event and the flushed \<open>processing\<close> event on the same subscribe.
\<close>

theorem chatStream_history_with_flush_counterexample:
  "pendingEvents lateSubscriberState ''u1'' = Some [processingEvent]
   \<and> map eventType (fst (projr (chatStream (Some ''u1'') None 17 ''t1'' lateSubscriberState)))
       = [''connected'', ''history'', ''processing'', ''session_heartbeat'']"
proof -
  have "map eventType (fst (projr (chatStream (Some ''u1'') None 17 ''t1'' lateSubscriberState)))
       = [''connected'', ''history'', ''processing'', ''session_heartbeat'']"
    by code_simp
  then show ?thesis using lateSubscriberState_pending by simp
qed

section \<open>Photo store: the claims\<close>

text \<open>
  Claim C3, as amended. For every successfully captured photo, every live photo-stream
  client is written one event with the fields \<open>requestId\<close>, \<open>timestamp\<close>,
  \<open>mimeType\<close>, \<open>filename\<close>, \<open>size\<close>, \<open>userId\<close> and, after them, the raw bytes of
  the photo twice: \<open>base64\<close>, the base64 encoding of the buffer, and \<open>dataUrl\<close>, a
  \<open>data:\<close> URL that carries the same encoding.
\<close>

theorem broadcastPhoto_payload:
  "photoWire (snd (takePhoto k True uid (Some p) pm)) =
     photoWire pm @ map (\<lambda>c. (clientId c, photoPayload (storedOf uid p)))
                        (filter (\<lambda>c. \<not> writeThrows c) (sseClients pm))
   \<and> keysOf (photoPayload (storedOf uid p)) =
       [''requestId'', ''timestamp'', ''mimeType'', ''filename'', ''size'', ''userId'',
        ''base64'', ''dataUrl'']
   \<and> field (photoPayload (storedOf uid p)) ''base64'' = Some (JStr (toBase64 (camBuffer p)))
   \<and> field (photoPayload (storedOf uid p)) ''dataUrl'' =
       Some (JStr (''data:'' @ camMimeType p @ '';base64,'' @ toBase64 (camBuffer p)))"
  by (simp add: takePhoto_wire) (simp add: photoPayload_def storedOf_def Let_def)

text \<open>
  Claim C3, counterexample to the claim as stated: the event for a photo with the three
  bytes of "Man" carries \<open>base64 = "TWFu"\<close> and a data URL with the same payload.
\<close>

theorem broadcastPhoto_raw_bytes_counterexample:
  "photoWire (snd (takePhoto 2 True ''u1'' (Some manPhoto) oneClient)) =
     [(7, JObj [(''requestId'', JStr ''r1''), (''timestamp'', JNum 1000),
                (''mimeType'', JStr ''image/jpeg''), (''filename'', JStr ''r1.jpg''),
                (''size'', JNum 3), (''userId'', JStr ''u1''),
                (''base64'', JStr ''TWFu''),
                (''dataUrl'', JStr ''data:image/jpeg;base64,TWFu'')])]"
  by code_simp

text \<open>
  Claim C6, as amended. The lookup map by request id has no cap. After any sequence of
  successful captures, the lookup of a request id returns the most recent capture with
  that id, and what the map held before when no capture had that id: nothing is evicted,
  and after \<open>n\<close> captures with distinct ids all \<open>n\<close> photos are retrievable.
\<close>

theorem getPhoto_after_captures:
  "getPhoto (takePhotos k uid ps pm) rid =
     (case find (\<lambda>p. camRequestId p = rid) (rev ps) of
        Some p \<Rightarrow> Some (storedOf uid p)
      | None \<Rightarrow> getPhoto pm rid)"
proof (induction ps arbitrary: pm)
  case Nil
  then show ?case by simp
next
  case (Cons p ps)
  have "getPhoto (snd (takePhoto k True uid (Some p) pm)) rid =
          (if camRequestId p = rid then Some (storedOf uid p) else getPhoto pm rid)"
    by (simp add: getPhoto_def photos_takePhoto)
  then show ?case
    using Cons.IH[of "snd (takePhoto k True uid (Some p) pm)"]
    by (simp add: find_snoc split: option.splits)
qed

text \<open>
  Claim C6, counterexample to the claim as stated: after nine captures with distinct
  request ids, nine photos are retrievable, the oldest among them.
\<close>

theorem photo_map_nine_counterexample:
  "card (dom (photos (takePhotos 2 ''u1'' (map numbered [1 ..< 10]) (photo (newUser ''u1''))))) = 9
   \<and> getPhoto (takePhotos 2 ''u1'' (map numbered [1 ..< 10]) (photo (newUser ''u1''))) ''photo-1''
       \<noteq> None"
proof -
  let ?pm = "takePhotos 2 ''u1'' (map numbered [1 ..< 10]) (photo (newUser ''u1''))"
  have "map camRequestId (map numbered [1 ..< 10]) =
          [''photo-1'', ''photo-2'', ''photo-3'', ''photo-4'', ''photo-5'', ''photo-6'',
           ''photo-7'', ''photo-8'', ''photo-9'']"
    by code_simp
  then have "set (map camRequestId (map numbered [1 ..< 10])) =
          set [''photo-1'', ''photo-2'', ''photo-3'', ''photo-4'', ''photo-5'', ''photo-6'',
               ''photo-7'', ''photo-8'', ''photo-9'']"
    by (rule arg_cong)
  then have ids: "camRequestId ` set (map numbered [1 ..< 10]) =
          {''photo-1'', ''photo-2'', ''photo-3'', ''photo-4'', ''photo-5'', ''photo-6'',
           ''photo-7'', ''photo-8'', ''photo-9''}"
    by (simp only: set_map list.set)
  have d: "dom (photos ?pm) =
          {''photo-1'', ''photo-2'', ''photo-3'', ''photo-4'', ''photo-5'', ''photo-6'',
           ''photo-7'', ''photo-8'', ''photo-9''}"
    unfolding dom_takePhotos ids by (simp add: newUser_def)
  have "''photo-1'' \<in> dom (photos ?pm)"
    unfolding d by simp
  then have g: "getPhoto ?pm ''photo-1'' \<noteq> None"
    by (auto simp: getPhoto_def dom_def)
  show ?thesis unfolding d using g by simp
qed

section \<open>Session registry: the claim\<close>

text \<open>
  Claim C7. When the grace timer armed by \<open>softRemove\<close> for a registered user fires,
  the registry broadcasts a chat event of type \<open>session_ended\<close> (with the reason "grace
  period expired" and the time of firing), then clears the pending event queue of the
  user, then removes the user: teardown, then deletion of the map entry. The live
  subscribers are sent the event, the event is not left in the queue, and afterwards the
  user, the queue and the pending removal are gone.
\<close>

theorem grace_timer_fire_order:
  assumes t: "timers st t = Some (uid, delay)" and u: "users st uid = Some user"
  shows "calls (fireTimer t isoNow st) =
           calls st @ [BroadcastChatEvent uid (sessionEnded isoNow), ClearPendingEvents uid,
                       Cleanup uid, DeleteUser uid]
         \<and> sessionEnded isoNow =
             JObj [(''type'', JStr ''session_ended''), (''reason'', JStr ''grace period expired''),
                   (''timestamp'', JStr isoNow)]
         \<and> eventType (sessionEnded isoNow) = ''session_ended''
         \<and> calls (fireTimer t isoNow st) =
             calls st @
               [BroadcastChatEvent uid
                  (JObj [(''type'', JStr ''session_ended''),
                         (''reason'', JStr ''grace period expired''),
                         (''timestamp'', JStr isoNow)]),
                ClearPendingEvents uid, Cleanup uid, DeleteUser uid]
         \<and> chatWire (fireTimer t isoNow st) =
             chatWire st @ map (\<lambda>w. (writerId w, sessionEnded isoNow))
               (filter (\<lambda>w. \<not> writeRejects w)
                  (case chatClients st uid of None \<Rightarrow> [] | Some ws \<Rightarrow> ws))
         \<and> pendingEvents (fireTimer t isoNow st) uid = None
         \<and> users (fireTimer t isoNow st) uid = None
         \<and> pendingRemovals (fireTimer t isoNow st) uid = None
         \<and> timers (fireTimer t isoNow st) t = None"
proof -
  have ev: "sessionEnded isoNow =
             JObj [(''type'', JStr ''session_ended''), (''reason'', JStr ''grace period expired''),
                   (''timestamp'', JStr isoNow)]"
    by (simp add: sessionEnded_def)
  have ty: "eventType (sessionEnded isoNow) = ''session_ended''"
    by (simp add: sessionEnded_def)
  have c: "calls (fireTimer t isoNow st) =
           calls st @ [BroadcastChatEvent uid (sessionEnded isoNow), ClearPendingEvents uid,
                       Cleanup uid, DeleteUser uid]"
    using t u
    by (simp add: fireTimer_def graceExpired_def Let_def remove_def clearPendingEvents_def
          calls_broadcast users_broadcast pendingRemovals_broadcast)
  have c': "calls (fireTimer t isoNow st) =
             calls st @
               [BroadcastChatEvent uid
                  (JObj [(''type'', JStr ''session_ended''),
                         (''reason'', JStr ''grace period expired''),
                         (''timestamp'', JStr isoNow)]),
                ClearPendingEvents uid, Cleanup uid, DeleteUser uid]"
    using c by (simp only: ev)
  have rest: "chatWire (fireTimer t isoNow st) =
             chatWire st @ map (\<lambda>w. (writerId w, sessionEnded isoNow))
               (filter (\<lambda>w. \<not> writeRejects w)
                  (case chatClients st uid of None \<Rightarrow> [] | Some ws \<Rightarrow> ws))
         \<and> pendingEvents (fireTimer t isoNow st) uid = None
         \<and> users (fireTimer t isoNow st) uid = None
         \<and> pendingRemovals (fireTimer t isoNow st) uid = None
         \<and> timers (fireTimer t isoNow st) t = None"
    using t u
    by (simp add: fireTimer_def graceExpired_def Let_def remove_def clearPendingEvents_def
          calls_broadcast users_broadcast pendingRemovals_broadcast timers_broadcast
          chatWire_broadcast)
  from c ev ty c' rest show ?thesis by (intro conjI) simp_all
qed

text \<open>
  Claim C7, witness: the timer that \<open>softRemove\<close> arms for a user with one live
  subscriber. The subscriber is sent the \<open>session_ended\<close> event.
\<close>

theorem grace_timer_fire_order_witness:
  "timers (softRemove ''u1'' 60000 connectedUser) 0 = Some (''u1'', 60000)
   \<and> users (softRemove ''u1'' 60000 connectedUser) ''u1'' = Some (newUser ''u1'')
   \<and> calls (fireTimer 0 ''t9'' (softRemove ''u1'' 60000 connectedUser)) =
       [ClearAppSession ''u1'', SetTimeout 0 60000,
        BroadcastChatEvent ''u1''
          (JObj [(''type'', JStr ''session_ended''), (''reason'', JStr ''grace period expired''),
                 (''timestamp'', JStr ''t9'')]),
        ClearPendingEvents ''u1'', Cleanup ''u1'', DeleteUser ''u1'']
   \<and> chatWire (fireTimer 0 ''t9'' (softRemove ''u1'' 60000 connectedUser)) =
       [(''u1-5'',
         JObj [(''type'', JStr ''session_ended''), (''reason'', JStr ''grace period expired''),
               (''timestamp'', JStr ''t9'')])]
   \<and> map eventType (map snd (chatWire (fireTimer 0 ''t9'' (softRemove ''u1'' 60000 connectedUser))))
       = [''session_ended'']
   \<and> users (fireTimer 0 ''t9'' (softRemove ''u1'' 60000 connectedUser)) ''u1'' = None
   \<and> pendingEvents (fireTimer 0 ''t9'' (softRemove ''u1'' 60000 connectedUser)) ''u1'' = None"
proof -
  have a: "timers (softRemove ''u1'' 60000 connectedUser) 0 = Some (''u1'', 60000)"
    by (simp add: softRemove_def connectedUser_def getOrCreate_def emptyServer_def Let_def)
  have b: "users (softRemove ''u1'' 60000 connectedUser) ''u1'' = Some (newUser ''u1'')"
    by (simp add: softRemove_def connectedUser_def getOrCreate_def emptyServer_def Let_def
          clearAppSession_def newUser_def)
  have c: "calls (softRemove ''u1'' 60000 connectedUser) = [ClearAppSession ''u1'', SetTimeout 0 60000]"
    by (simp add: softRemove_def connectedUser_def getOrCreate_def emptyServer_def Let_def)
  have d: "chatWire (softRemove ''u1'' 60000 connectedUser) = []"
    by (simp add: softRemove_def connectedUser_def getOrCreate_def emptyServer_def Let_def)
  have e: "chatClients (softRemove ''u1'' 60000 connectedUser) ''u1'' = Some [\<lparr>writerId = ''u1-5'', writeRejects = False\<rparr>]"
    by (simp add: softRemove_def connectedUser_def getOrCreate_def emptyServer_def Let_def)
  show ?thesis
    using grace_timer_fire_order[OF a b, of "''t9''"] a b c d e by simp
qed

section \<open>Query pipeline: the claims\<close>

text \<open>
  Claim C2, as amended. No run of the query pipeline broadcasts a chat event: neither
  the query nor the response is announced by \<open>processQuery\<close>. With a session attached
  the pipeline calls the agent once and \<open>addTurn\<close> once, in this order, and \<open>addTurn\<close>
  is its last call and stores the returned response.
\<close>

theorem processQuery_call_order:
  "filter isBroadcast (fst (processQuery env q u)) = []
   \<and> (appSession u \<noteq> None \<longrightarrow>
        (\<exists>pre options out hp.
           fst (processQuery env q u) =
             pre @ GenerateResponse options # out @ [AddTurn q (fst (snd (processQuery env q u))) hp]
           \<and> quiet pre \<and> quiet out))"
proof (cases "appSession u")
  case None
  then show ?thesis by (simp add: processQuery_def)
next
  case (Some session)
  obtain capture photoList u1 where c: "capturePhoto env session u = (capture, photoList, u1)"
    by (cases "capturePhoto env session u") auto
  note eq = processQuery_unfold[OF Some c, of q]
  have qpre: "quiet (playProcessingSound env u @ capture @ fetchLocation env q)"
    using capturePhoto_quiet[OF c] by (simp add: quiet_append quiet_sound quiet_locate)
  have nb: "filter isBroadcast (fst (processQuery env q u)) = []"
    unfolding eq using qpre quiet_output[of u1] by (simp add: quiet_def)
  have "\<exists>pre options out hp.
           fst (processQuery env q u) =
             pre @ GenerateResponse options # out @ [AddTurn q (fst (snd (processQuery env q u))) hp]
           \<and> quiet pre \<and> quiet out"
    unfolding eq fst_conv snd_conv
    using qpre quiet_output by blast
  with nb show ?thesis by simp
qed

text \<open>
  Claim C2, witness: glasses without reported capabilities and an agent that answers.
\<close>

theorem processQuery_call_order_witness:
  "appSession glassesUser \<noteq> None
   \<and> filter isBroadcast (fst (processQuery (exampleEnv (Some ''It is noon'')) ''what time is it'' glassesUser)) = []
   \<and> map isGenerate (fst (processQuery (exampleEnv (Some ''It is noon'')) ''what time is it'' glassesUser))
       = [True, False, False]
   \<and> last (fst (processQuery (exampleEnv (Some ''It is noon'')) ''what time is it'' glassesUser))
       = AddTurn ''what time is it'' ''It is noon'' False"
proof -
  have a: "appSession glassesUser \<noteq> None" by (simp add: glassesUser_def)
  have b: "map isGenerate (fst (processQuery (exampleEnv (Some ''It is noon'')) ''what time is it'' glassesUser))
       = [True, False, False]" by code_simp
  have c: "last (fst (processQuery (exampleEnv (Some ''It is noon'')) ''what time is it'' glassesUser))
       = AddTurn ''what time is it'' ''It is noon'' False" by code_simp
  show ?thesis
    using processQuery_call_order[of "exampleEnv (Some ''It is noon'')" "''what time is it''" glassesUser]
      a b c by simp
qed

text \<open>
  Claim C2, counterexample to the claim as stated: in that run the calls are the agent
  call, \<open>speak\<close> and \<open>addTurn\<close>; no chat event is broadcast before the agent call or
  before \<open>addTurn\<close>.
\<close>

theorem processQuery_no_message_broadcast_counterexample:
  "map isBroadcast (fst (processQuery (exampleEnv (Some ''It is noon'')) ''what time is it'' glassesUser))
     = [False, False, False]
   \<and> map isGenerate (fst (processQuery (exampleEnv (Some ''It is noon'')) ''what time is it'' glassesUser))
     = [True, False, False]
   \<and> map isAddTurn (fst (processQuery (exampleEnv (Some ''It is noon'')) ''what time is it'' glassesUser))
     = [False, False, True]"
  by code_simp



end
